theory Spec2Isabelle
  imports Complex_Main "HOL-Library.Char_ord" "HOL-Library.List_Lexorder" "HOL-Library.Sublist"
begin

section \<open>The memory system of basilisk-core\<close>

text \<open>
  A shallow embedding of \<^verbatim>\<open>computer_use_demo/memory\<close>: the dataclasses of
  \<^verbatim>\<open>core.py\<close>, the SQLite table of \<^verbatim>\<open>storage.py\<close> and the vector
  operations of \<^verbatim>\<open>embeddings.py\<close>.

  Conventions of the model.
  \<^item> A Python \<^verbatim>\<open>dict\<close> is an association list in insertion order with distinct keys;
    \<open>map_of\<close> reads it and \<open>dict_set\<close> writes it (an existing key keeps its position).
  \<^item> A Python \<^verbatim>\<open>float\<close> is a \<open>real\<close>: the comparisons the code makes on finite floats
    agree with those on the reals. NaN is not a \<open>real\<close>; where the code can produce one
    (the cosine similarity) the result type has a NaN of its own, and so has a number
    inside a JSON payload, where a caller can put one.
  \<^item> Strings are compared as Python compares them, lexicographically by character code.
  \<^item> An exception is a value of \<open>error\<close>; a method that mutates \<^verbatim>\<open>self\<close> returns the
    state it leaves behind together with its result, also when it raises.
  \<^item> What the environment supplies is an argument: the fresh \<^verbatim>\<open>uuid4\<close>, the clock
    readings, the answer of the embedding provider, the process's string hash, numpy's
    generator, the JSON codec, and whether SQLite accepts a write. The codec of the
    standard library is modelled below, on tokens.
  \<^item> The model follows the bodies of the methods as they are written. It does not model
    the loading of the modules, which as written fails: \<^verbatim>\<open>Experience\<close> declares the field
    \<^verbatim>\<open>type\<close> without a default after two fields with one, and \<^verbatim>\<open>core.py\<close> and
    \<^verbatim>\<open>storage.py\<close> import each other.
\<close>

subsection \<open>Data model (core.py)\<close>

text \<open>
  A float that may be NaN, and the values a payload (\<^verbatim>\<open>content\<close>, \<^verbatim>\<open>metadata\<close>,
  \<^verbatim>\<open>context\<close>) is made of: those that JSON text can denote.
\<close>

datatype npfloat = Num real | NaN

datatype json =
    JNull
  | JBool bool
  | JInt int
  | JFloat npfloat
  | JStr string
  | JList "json list"
  | JDict "(string \<times> json) list"

type_synonym payload = "(string \<times> json) list"

datatype error =
    KeyError string
  | ValueError
  | SqliteError

record experience =
  exp_id :: string
  timestamp :: string
  exp_type :: string
  content :: payload
  metadata :: payload
  tags :: "string list"
  importance :: real
  exp_context :: payload
  relationships :: "(string \<times> string list) list"

record memory =
  experience :: experience
  embedding :: "real list"
  last_accessed :: string
  access_count :: int
  emotional_valence :: real
  confidence :: real

subsection \<open>Python containers\<close>

fun dict_set :: "'k \<Rightarrow> 'v \<Rightarrow> ('k \<times> 'v) list \<Rightarrow> ('k \<times> 'v) list" where
  "dict_set k v [] = [(k, v)]"
| "dict_set k v ((k', v') # kvs) =
     (if k' = k then (k, v) # kvs else (k', v') # dict_set k v kvs)"

text \<open>\<^verbatim>\<open>d.get(k, [])\<close>, also used for \<^verbatim>\<open>d[k]\<close> right after \<^verbatim>\<open>k\<close> was put in.\<close>

definition dict_get_list :: "('k \<times> 'v list) list \<Rightarrow> 'k \<Rightarrow> 'v list" where
  "dict_get_list d k = (case map_of d k of None \<Rightarrow> [] | Some v \<Rightarrow> v)"

text \<open>The slice \<^verbatim>\<open>xs[:limit]\<close>; a negative limit counts from the end.\<close>

definition slice_to :: "int \<Rightarrow> 'a list \<Rightarrow> 'a list" where
  "slice_to limit xs =
     (if 0 \<le> limit then take (nat limit) xs else take (length xs - nat (- limit)) xs)"

text \<open>
  \<^verbatim>\<open>list.sort(key=..., reverse=...)\<close> is stable and only ever asks whether one key is
  less than another. Insertion from the right, before the first element that is not
  smaller, is such a sort; with \<^verbatim>\<open>reverse=True\<close> Python reverses the list, sorts it and
  reverses it again, so that equal elements keep their order. On keys that are totally
  ordered, and on keys no two of which compare (all NaN), every such sort returns the
  same list; the code sorts no other keys in what follows.
\<close>

fun insort_by :: "('k \<Rightarrow> 'k \<Rightarrow> bool) \<Rightarrow> ('a \<Rightarrow> 'k) \<Rightarrow> 'a \<Rightarrow> 'a list \<Rightarrow> 'a list" where
  "insort_by lt key x [] = [x]"
| "insort_by lt key x (y # ys) =
     (if lt (key y) (key x) then y # insort_by lt key x ys else x # y # ys)"

definition list_sort :: "('k \<Rightarrow> 'k \<Rightarrow> bool) \<Rightarrow> ('a \<Rightarrow> 'k) \<Rightarrow> bool \<Rightarrow> 'a list \<Rightarrow> 'a list" where
  "list_sort lt key reverse xs =
     (if reverse then rev (foldr (insort_by lt key) (rev xs) [])
      else foldr (insort_by lt key) xs [])"

subsection \<open>JSON text (the standard library's json)\<close>

text \<open>
  \<^verbatim>\<open>storage.py\<close> keeps six fields as JSON text. A text is modelled by its tokens: the
  punctuation, the three literals, and number and string tokens that carry the value
  their characters denote. A number token stands for the characters \<^verbatim>\<open>repr\<close> prints
  for the number, which Python reads back as the same number (\<^verbatim>\<open>NaN\<close> as a NaN); the
  model does not go below the tokens.
\<close>

datatype token =
    TLBrace
  | TRBrace
  | TLBracket
  | TRBracket
  | TComma
  | TColon
  | TNull
  | TTrue
  | TFalse
  | TInt int
  | TFloat npfloat
  | TString string

type_synonym json_text = "token list"

text \<open>
  \<^verbatim>\<open>json.dumps\<close>: the elements of a list between brackets and the items of a
  dictionary between braces, in their order, separated by commas.
\<close>

fun dumps :: "json \<Rightarrow> json_text"
  and dumps_items :: "json list \<Rightarrow> json_text"
  and dumps_pairs :: "(string \<times> json) list \<Rightarrow> json_text" where
  "dumps JNull = [TNull]"
| "dumps (JBool b) = [if b then TTrue else TFalse]"
| "dumps (JInt i) = [TInt i]"
| "dumps (JFloat x) = [TFloat x]"
| "dumps (JStr s) = [TString s]"
| "dumps (JList xs) = TLBracket # dumps_items xs @ [TRBracket]"
| "dumps (JDict kvs) = TLBrace # dumps_pairs kvs @ [TRBrace]"
| "dumps_items [] = []"
| "dumps_items [x] = dumps x"
| "dumps_items (x # y # ys) = dumps x @ TComma # dumps_items (y # ys)"
| "dumps_pairs [] = []"
| "dumps_pairs [(k, v)] = TString k # TColon # dumps v"
| "dumps_pairs ((k, v) # p # ps) = TString k # TColon # dumps v @ TComma # dumps_pairs (p # ps)"

text \<open>
  \<^verbatim>\<open>json.loads\<close>, by recursive descent: \<open>parse\<close> reads a value, \<open>parse_items\<close> the
  elements of an array up to its bracket and \<open>parse_pairs\<close> the items of an object up
  to its brace; each returns what it read and the tokens that follow. The first argument
  bounds the depth of the recursion, and the number of tokens is bound enough for a
  text that \<open>dumps\<close> wrote. \<open>None\<close> is \<^verbatim>\<open>JSONDecodeError\<close>. The items of an object are
  returned as they stand in the text; \<open>dumps\<close> writes no key twice.
\<close>

fun parse :: "nat \<Rightarrow> json_text \<Rightarrow> (json \<times> json_text) option"
  and parse_items :: "nat \<Rightarrow> json_text \<Rightarrow> (json list \<times> json_text) option"
  and parse_pairs :: "nat \<Rightarrow> json_text \<Rightarrow> ((string \<times> json) list \<times> json_text) option" where
  "parse 0 ts = None"
| "parse (Suc n) ts =
     (case ts of
        [] \<Rightarrow> None
      | t # rest \<Rightarrow>
          (case t of
             TNull \<Rightarrow> Some (JNull, rest)
           | TTrue \<Rightarrow> Some (JBool True, rest)
           | TFalse \<Rightarrow> Some (JBool False, rest)
           | TInt i \<Rightarrow> Some (JInt i, rest)
           | TFloat x \<Rightarrow> Some (JFloat x, rest)
           | TString s \<Rightarrow> Some (JStr s, rest)
           | TLBracket \<Rightarrow>
               (case rest of
                  [] \<Rightarrow> None
                | t' # rest' \<Rightarrow>
                    if t' = TRBracket then Some (JList [], rest')
                    else (case parse_items n rest of
                            None \<Rightarrow> None
                          | Some (xs, rest'') \<Rightarrow> Some (JList xs, rest'')))
           | TLBrace \<Rightarrow>
               (case rest of
                  [] \<Rightarrow> None
                | t' # rest' \<Rightarrow>
                    if t' = TRBrace then Some (JDict [], rest')
                    else (case parse_pairs n rest of
                            None \<Rightarrow> None
                          | Some (kvs, rest'') \<Rightarrow> Some (JDict kvs, rest'')))
           | TRBrace \<Rightarrow> None
           | TRBracket \<Rightarrow> None
           | TComma \<Rightarrow> None
           | TColon \<Rightarrow> None))"
| "parse_items 0 ts = None"
| "parse_items (Suc n) ts =
     (case parse n ts of
        None \<Rightarrow> None
      | Some (x, rest) \<Rightarrow>
          (case rest of
             [] \<Rightarrow> None
           | t # rest' \<Rightarrow>
               if t = TRBracket then Some ([x], rest')
               else if t = TComma then
                 (case parse_items n rest' of
                    None \<Rightarrow> None
                  | Some (xs, rest'') \<Rightarrow> Some (x # xs, rest''))
               else None))"
| "parse_pairs 0 ts = None"
| "parse_pairs (Suc n) ts =
     (case ts of
        TString k # TColon # rest \<Rightarrow>
          (case parse n rest of
             None \<Rightarrow> None
           | Some (v, rest1) \<Rightarrow>
               (case rest1 of
                  [] \<Rightarrow> None
                | t # rest2 \<Rightarrow>
                    if t = TRBrace then Some ([(k, v)], rest2)
                    else if t = TComma then
                      (case parse_pairs n rest2 of
                         None \<Rightarrow> None
                       | Some (kvs, rest3) \<Rightarrow> Some ((k, v) # kvs, rest3))
                    else None))
      | _ \<Rightarrow> None)"

definition loads :: "json_text \<Rightarrow> json option" where
  "loads ts =
     (case parse (length ts) ts of
        None \<Rightarrow> None
      | Some (v, rest) \<Rightarrow> if rest = [] then Some v else None)"

subsection \<open>Storage (storage.py)\<close>

text \<open>
  \<^verbatim>\<open>storage.py\<close> calls \<^verbatim>\<open>json.dumps\<close> and \<^verbatim>\<open>json.loads\<close> at four types; a
  \<open>json_codec\<close> is such a pair at each of them, and the methods below are written over
  any codec.
\<close>

record json_codec =
  dumps_payload :: "payload \<Rightarrow> json_text"
  loads_payload :: "json_text \<Rightarrow> payload"
  dumps_strings :: "string list \<Rightarrow> json_text"
  loads_strings :: "json_text \<Rightarrow> string list"
  dumps_relationships :: "(string \<times> string list) list \<Rightarrow> json_text"
  loads_relationships :: "json_text \<Rightarrow> (string \<times> string list) list"
  dumps_floats :: "real list \<Rightarrow> json_text"
  loads_floats :: "json_text \<Rightarrow> real list"

text \<open>
  The codec of the library. \<^verbatim>\<open>json.loads\<close> returns a value of whatever shape the text
  has, and the code assigns it to the field as it is; the fields of the model are typed,
  so the value is read at the type of its field. A text that does not parse, or that has
  another shape, is none that \<^verbatim>\<open>store_memory\<close> writes; in the model it reads as empty.
\<close>

fun as_dict :: "json option \<Rightarrow> (string \<times> json) list" where
  "as_dict (Some (JDict kvs)) = kvs"
| "as_dict _ = []"

fun as_list :: "json option \<Rightarrow> json list" where
  "as_list (Some (JList xs)) = xs"
| "as_list _ = []"

fun as_string :: "json \<Rightarrow> string" where
  "as_string (JStr s) = s"
| "as_string _ = []"

fun as_real :: "json \<Rightarrow> real" where
  "as_real (JFloat (Num x)) = x"
| "as_real (JInt i) = of_int i"
| "as_real _ = 0"

definition python_json :: json_codec where
  "python_json =
     \<lparr> dumps_payload = (\<lambda>p. dumps (JDict p)),
       loads_payload = (\<lambda>t. as_dict (loads t)),
       dumps_strings = (\<lambda>xs. dumps (JList (map JStr xs))),
       loads_strings = (\<lambda>t. map as_string (as_list (loads t))),
       dumps_relationships =
         (\<lambda>r. dumps (JDict (map (\<lambda>(k, ids). (k, JList (map JStr ids))) r))),
       loads_relationships =
         (\<lambda>t. map (\<lambda>(k, v). (k, map as_string (as_list (Some v)))) (as_dict (loads t))),
       dumps_floats = (\<lambda>v. dumps (JList (map (\<lambda>x. JFloat (Num x)) v))),
       loads_floats = (\<lambda>t. map as_real (as_list (loads t))) \<rparr>"

text \<open>One row of the table \<^verbatim>\<open>memories\<close>, column by column.\<close>

record row =
  row_id :: string
  row_timestamp :: string
  row_type :: string
  row_content :: json_text
  row_metadata :: json_text
  row_tags :: json_text
  row_importance :: real
  row_context :: json_text
  row_relationships :: json_text
  row_embedding :: json_text
  row_last_accessed :: string
  row_access_count :: int
  row_emotional_valence :: real
  row_confidence :: real

text \<open>
  The database: its rows in the order \<^verbatim>\<open>SELECT *\<close> yields them, and whether a write
  is accepted (a write to a locked, full or read-only database raises
  \<^verbatim>\<open>sqlite3.Error\<close>).
\<close>

record storage_manager =
  rows :: "row list"
  accepts_writes :: bool

definition memory_data :: "json_codec \<Rightarrow> memory \<Rightarrow> row" where
  "memory_data J m =
     \<lparr> row_id = exp_id (experience m),
       row_timestamp = timestamp (experience m),
       row_type = exp_type (experience m),
       row_content = dumps_payload J (content (experience m)),
       row_metadata = dumps_payload J (metadata (experience m)),
       row_tags = dumps_strings J (tags (experience m)),
       row_importance = importance (experience m),
       row_context = dumps_payload J (exp_context (experience m)),
       row_relationships = dumps_relationships J (relationships (experience m)),
       row_embedding = dumps_floats J (embedding m),
       row_last_accessed = last_accessed m,
       row_access_count = access_count m,
       row_emotional_valence = emotional_valence m,
       row_confidence = confidence m \<rparr>"

text \<open>\<^verbatim>\<open>INSERT OR REPLACE\<close>: a row with the same primary key is deleted, the new row added.\<close>

definition store_memory :: "json_codec \<Rightarrow> storage_manager \<Rightarrow> memory \<Rightarrow> error + storage_manager" where
  "store_memory J db m =
     (if \<not> accepts_writes db then Inl SqliteError
      else Inr (db\<lparr>rows := filter (\<lambda>r. row_id r \<noteq> exp_id (experience m)) (rows db)
                              @ [memory_data J m]\<rparr>))"

definition row_memory :: "json_codec \<Rightarrow> row \<Rightarrow> memory" where
  "row_memory J r =
     \<lparr> experience =
         \<lparr> exp_id = row_id r,
           timestamp = row_timestamp r,
           exp_type = row_type r,
           content = loads_payload J (row_content r),
           metadata = loads_payload J (row_metadata r),
           tags = loads_strings J (row_tags r),
           importance = row_importance r,
           exp_context = loads_payload J (row_context r),
           relationships = loads_relationships J (row_relationships r) \<rparr>,
       embedding = loads_floats J (row_embedding r),
       last_accessed = row_last_accessed r,
       access_count = row_access_count r,
       emotional_valence = row_emotional_valence r,
       confidence = row_confidence r \<rparr>"

definition load_all_memories :: "json_codec \<Rightarrow> storage_manager \<Rightarrow> memory list" where
  "load_all_memories J db = map (row_memory J) (rows db)"


definition update_access :: "storage_manager \<Rightarrow> string \<Rightarrow> string \<Rightarrow> error + storage_manager" where
  "update_access db now memory_id =
     (if \<not> accepts_writes db then Inl SqliteError
      else Inr (db\<lparr>rows := map (\<lambda>r. if row_id r = memory_id
                                     then r\<lparr>row_last_accessed := now,
                                            row_access_count := row_access_count r + 1\<rparr>
                                     else r) (rows db)\<rparr>))"

text \<open>
  The loop \<^verbatim>\<open>for memory in memories: self.storage.update_access(...)\<close> of the three
  recall methods; \<open>clock i\<close> is the clock reading of the \<open>i\<close>-th update.
\<close>

fun update_access_each ::
  "(nat \<Rightarrow> string) \<Rightarrow> nat \<Rightarrow> memory list \<Rightarrow> storage_manager \<Rightarrow> error option \<times> storage_manager" where
  "update_access_each clock i [] db = (None, db)"
| "update_access_each clock i (m # ms) db =
     (case update_access db (clock i) (exp_id (experience m)) of
        Inl e \<Rightarrow> (Some e, db)
      | Inr db' \<Rightarrow> update_access_each clock (Suc i) ms db')"

subsection \<open>Embeddings (embeddings.py)\<close>

text \<open>
  numpy's division returns a number, or NaN for \<open>0 / 0\<close> (numpy warns and does not
  raise). Python's \<^verbatim>\<open><\<close> is false whenever a side is NaN.
\<close>

fun float_lt :: "npfloat \<Rightarrow> npfloat \<Rightarrow> bool" where
  "float_lt (Num a) (Num b) = (a < b)"
| "float_lt _ _ = False"

definition dot :: "real list \<Rightarrow> real list \<Rightarrow> real" where
  "dot v1 v2 = sum_list (map2 (*) v1 v2)"

definition norm_vec :: "real list \<Rightarrow> real" where
  "norm_vec v = sqrt (dot v v)"

text \<open>
  \<^verbatim>\<open>np.dot(v1, v2) / (np.linalg.norm(v1) * np.linalg.norm(v2))\<close>. \<^verbatim>\<open>np.dot\<close> raises
  \<^verbatim>\<open>ValueError\<close> on vectors of different lengths. A zero denominator means that one
  vector is zero, so the numerator is zero too and the quotient is NaN.
\<close>

definition calculate_similarity :: "real list \<Rightarrow> real list \<Rightarrow> error + npfloat" where
  "calculate_similarity vec1 vec2 =
     (if length vec1 \<noteq> length vec2 then Inl ValueError
      else if norm_vec vec1 * norm_vec vec2 = 0 then Inr NaN
      else Inr (Num (dot vec1 vec2 / (norm_vec vec1 * norm_vec vec2))))"

text \<open>
  \<^verbatim>\<open>_generate_simple_embedding\<close>. \<open>hash\<close> is the builtin \<^verbatim>\<open>hash\<close> on strings of the
  running process and \<open>randn seed n\<close> stands for
  \<^verbatim>\<open>np.random.RandomState(seed).randn(n).tolist()\<close>; \<^verbatim>\<open>RandomState\<close> raises
  \<^verbatim>\<open>ValueError\<close> unless the seed lies between \<open>0\<close> and \<open>2^32 - 1\<close>.
\<close>

definition generate_simple_embedding ::
  "(string \<Rightarrow> int) \<Rightarrow> (int \<Rightarrow> nat \<Rightarrow> real list) \<Rightarrow> string \<Rightarrow> error + real list" where
  "generate_simple_embedding hash randn text =
     (let hash_val = hash text
      in if 0 \<le> hash_val \<and> hash_val \<le> 2 ^ 32 - 1 then Inr (randn hash_val 256)
         else Inl ValueError)"

subsection \<open>The memory system (core.py)\<close>

record memory_system =
  semantic_index :: "(string \<times> memory) list"
  temporal_index :: "string list"
  importance_index :: "string list"
  type_index :: "(string \<times> string list) list"
  storage :: storage_manager

text \<open>
  The arguments of one \<^verbatim>\<open>record_experience\<close> call, and what the environment
  supplies during it: the \<^verbatim>\<open>uuid4\<close> of the new experience, the two clock readings of
  the dataclass defaults, and what \<^verbatim>\<open>get_embedding\<close> returns or raises.
\<close>

record record_call =
  call_type :: string
  call_content :: payload
  call_metadata :: "payload option"
  call_tags :: "string list option"
  call_importance :: real
  call_context :: "payload option"
  uuid4 :: string
  now_timestamp :: string
  now_last_accessed :: string
  provider_embedding :: "error + real list"

text \<open>\<^verbatim>\<open>x or default\<close> on an optional container.\<close>

definition or_default :: "'a list option \<Rightarrow> 'a list" where
  "or_default x = (case x of None \<Rightarrow> [] | Some v \<Rightarrow> v)"

definition new_experience :: "record_call \<Rightarrow> experience" where
  "new_experience c =
     \<lparr> exp_id = uuid4 c,
       timestamp = now_timestamp c,
       exp_type = call_type c,
       content = call_content c,
       metadata = or_default (call_metadata c),
       tags = or_default (call_tags c),
       importance = call_importance c,
       exp_context = or_default (call_context c),
       relationships = [] \<rparr>"

definition new_memory :: "record_call \<Rightarrow> real list \<Rightarrow> memory" where
  "new_memory c emb =
     \<lparr> experience = new_experience c,
       embedding = emb,
       last_accessed = now_last_accessed c,
       access_count = 0,
       emotional_valence = 0,
       confidence = 1 \<rparr>"

text \<open>
  The loop of \<^verbatim>\<open>_insert_sorted_by_importance\<close>: the new id goes before the first id
  whose importance is strictly smaller, or to the end.
\<close>

fun insert_before_smaller ::
  "(string \<times> memory) list \<Rightarrow> real \<Rightarrow> string \<Rightarrow> string list \<Rightarrow> error + string list" where
  "insert_before_smaller sem imp memory_id [] = Inr [memory_id]"
| "insert_before_smaller sem imp memory_id (mid # mids) =
     (case map_of sem mid of
        None \<Rightarrow> Inl (KeyError mid)
      | Some m \<Rightarrow>
          if imp > importance (experience m) then Inr (memory_id # mid # mids)
          else (case insert_before_smaller sem imp memory_id mids of
                  Inl e \<Rightarrow> Inl e
                | Inr mids' \<Rightarrow> Inr (mid # mids')))"

definition insert_sorted_by_importance :: "string \<Rightarrow> memory_system \<Rightarrow> error + memory_system" where
  "insert_sorted_by_importance memory_id s =
     (case map_of (semantic_index s) memory_id of
        None \<Rightarrow> Inl (KeyError memory_id)
      | Some m \<Rightarrow>
          (case insert_before_smaller (semantic_index s) (importance (experience m))
                  memory_id (importance_index s) of
             Inl e \<Rightarrow> Inl e
           | Inr idx \<Rightarrow> Inr (s\<lparr>importance_index := idx\<rparr>)))"

text \<open>\<^verbatim>\<open>if t not in self.type_index: self.type_index[t] = []\<close>\<close>

definition ensure_bucket :: "string \<Rightarrow> (string \<times> string list) list \<Rightarrow> (string \<times> string list) list" where
  "ensure_bucket t d = (if map_of d t = None then dict_set t [] d else d)"

definition record_experience ::
  "json_codec \<Rightarrow> record_call \<Rightarrow> memory_system \<Rightarrow> (error + experience) \<times> memory_system" where
  "record_experience J c s =
     (case provider_embedding c of
        Inl e \<Rightarrow> (Inl e, s)
      | Inr emb \<Rightarrow>
          let ex = new_experience c;
              mem = new_memory c emb;
              s1 = s\<lparr>semantic_index := dict_set (exp_id ex) mem (semantic_index s)\<rparr>;
              s2 = s1\<lparr>temporal_index := exp_id ex # temporal_index s1\<rparr>
          in (case insert_sorted_by_importance (exp_id ex) s2 of
               Inl e \<Rightarrow> (Inl e, s2)
             | Inr s3 \<Rightarrow>
                 let d = ensure_bucket (exp_type ex) (type_index s3);
                     s4 = s3\<lparr>type_index :=
                             dict_set (exp_type ex) (exp_id ex # dict_get_list d (exp_type ex)) d\<rparr>
                 in (case store_memory J (storage s4) mem of
                       Inl e \<Rightarrow> (Inl e, s4)
                     | Inr db \<Rightarrow> (Inr ex, s4\<lparr>storage := db\<rparr>))))"

text \<open>The comprehension \<^verbatim>\<open>[self.semantic_index[mid] for mid in memory_ids]\<close>.\<close>

fun lookup_each :: "(string \<times> memory) list \<Rightarrow> string list \<Rightarrow> error + memory list" where
  "lookup_each sem [] = Inr []"
| "lookup_each sem (mid # mids) =
     (case map_of sem mid of
        None \<Rightarrow> Inl (KeyError mid)
      | Some m \<Rightarrow>
          (case lookup_each sem mids of
             Inl e \<Rightarrow> Inl e
           | Inr ms \<Rightarrow> Inr (m # ms)))"

text \<open>What the three recall methods do once they hold the memories to return.\<close>

definition surface ::
  "(nat \<Rightarrow> string) \<Rightarrow> memory list \<Rightarrow> memory_system \<Rightarrow> (error + memory list) \<times> memory_system" where
  "surface clock memories s =
     (case update_access_each clock 0 memories (storage s) of
        (Some e, db) \<Rightarrow> (Inl e, s\<lparr>storage := db\<rparr>)
      | (None, db) \<Rightarrow> (Inr memories, s\<lparr>storage := db\<rparr>))"

fun similarities :: "real list \<Rightarrow> memory list \<Rightarrow> error + (npfloat \<times> memory) list" where
  "similarities q [] = Inr []"
| "similarities q (m # ms) =
     (case calculate_similarity q (embedding m) of
        Inl e \<Rightarrow> Inl e
      | Inr sim \<Rightarrow>
          (case similarities q ms of
             Inl e \<Rightarrow> Inl e
           | Inr rest \<Rightarrow> Inr ((sim, m) # rest)))"

text \<open>\<open>query_embedding\<close> is what \<^verbatim>\<open>get_embedding(query)\<close> returns or raises.\<close>

definition recall_similar ::
  "(nat \<Rightarrow> string) \<Rightarrow> error + real list \<Rightarrow> int \<Rightarrow> memory_system
     \<Rightarrow> (error + memory list) \<times> memory_system" where
  "recall_similar clock query_embedding limit s =
     (case query_embedding of
        Inl e \<Rightarrow> (Inl e, s)
      | Inr q \<Rightarrow>
          (case similarities q (map snd (semantic_index s)) of
             Inl e \<Rightarrow> (Inl e, s)
           | Inr sims \<Rightarrow>
               surface clock (map snd (slice_to limit (list_sort float_lt fst True sims))) s))"

text \<open>\<^verbatim>\<open>if type:\<close> holds for a string that is not empty; \<^verbatim>\<open>None\<close> and \<^verbatim>\<open>""\<close> are false.\<close>

definition recall_recent ::
  "(nat \<Rightarrow> string) \<Rightarrow> int \<Rightarrow> string option \<Rightarrow> memory_system
     \<Rightarrow> (error + memory list) \<times> memory_system" where
  "recall_recent clock limit type s =
     (let memory_ids =
            (case type of
               Some t \<Rightarrow> if t \<noteq> [] then slice_to limit (dict_get_list (type_index s) t)
                         else slice_to limit (temporal_index s)
             | None \<Rightarrow> slice_to limit (temporal_index s))
      in case lookup_each (semantic_index s) memory_ids of
           Inl e \<Rightarrow> (Inl e, s)
         | Inr memories \<Rightarrow> surface clock memories s)"

definition recall_important ::
  "(nat \<Rightarrow> string) \<Rightarrow> int \<Rightarrow> memory_system \<Rightarrow> (error + memory list) \<times> memory_system" where
  "recall_important clock limit s =
     (case lookup_each (semantic_index s) (slice_to limit (importance_index s)) of
        Inl e \<Rightarrow> (Inl e, s)
      | Inr memories \<Rightarrow> surface clock memories s)"

text \<open>
  \<^verbatim>\<open>ids.sort(key=lambda x: self.semantic_index[x].experience.timestamp, reverse=True)\<close>:
  Python computes every key first (a missing id raises \<^verbatim>\<open>KeyError\<close> and leaves the list
  as it was), then sorts the ids by their keys.
\<close>

definition sort_by_timestamp :: "(string \<times> memory) list \<Rightarrow> string list \<Rightarrow> error + string list" where
  "sort_by_timestamp sem ids =
     (case lookup_each sem ids of
        Inl e \<Rightarrow> Inl e
      | Inr ms \<Rightarrow>
          Inr (map fst (list_sort (<) snd True
                          (zip ids (map (\<lambda>m. timestamp (experience m)) ms)))))"

text \<open>The first loop of \<^verbatim>\<open>load_memories\<close>.\<close>

fun rebuild_indices :: "memory list \<Rightarrow> memory_system \<Rightarrow> error option \<times> memory_system" where
  "rebuild_indices [] s = (None, s)"
| "rebuild_indices (m # ms) s =
     (let mid = exp_id (experience m);
          s1 = s\<lparr>semantic_index := dict_set mid m (semantic_index s)\<rparr>;
          s2 = s1\<lparr>temporal_index := temporal_index s1 @ [mid]\<rparr>
      in case insert_sorted_by_importance mid s2 of
           Inl e \<Rightarrow> (Some e, s2)
         | Inr s3 \<Rightarrow>
             let d = ensure_bucket (exp_type (experience m)) (type_index s3);
                 s4 = s3\<lparr>type_index :=
                         dict_set (exp_type (experience m))
                           (dict_get_list d (exp_type (experience m)) @ [mid]) d\<rparr>
             in rebuild_indices ms s4)"

text \<open>The last loop of \<^verbatim>\<open>load_memories\<close>, over \<^verbatim>\<open>self.type_index.values()\<close>.\<close>

fun sort_buckets ::
  "(string \<times> memory) list \<Rightarrow> (string \<times> string list) list
     \<Rightarrow> error option \<times> (string \<times> string list) list" where
  "sort_buckets sem [] = (None, [])"
| "sort_buckets sem ((t, type_ids) # rest) =
     (case sort_by_timestamp sem type_ids of
        Inl e \<Rightarrow> (Some e, (t, type_ids) # rest)
      | Inr sorted_ids \<Rightarrow>
          (case sort_buckets sem rest of
             (r, rest') \<Rightarrow> (r, (t, sorted_ids) # rest')))"

definition load_memories :: "json_codec \<Rightarrow> memory_system \<Rightarrow> (error + unit) \<times> memory_system" where
  "load_memories J s =
     (let memories = load_all_memories J (storage s);
          s0 = s\<lparr>semantic_index := [], temporal_index := [],
                 importance_index := [], type_index := []\<rparr>
      in case rebuild_indices memories s0 of
           (Some e, s1) \<Rightarrow> (Inl e, s1)
         | (None, s1) \<Rightarrow>
             (case sort_by_timestamp (semantic_index s1) (temporal_index s1) of
                Inl e \<Rightarrow> (Inl e, s1)
              | Inr sorted_ids \<Rightarrow>
                  let s2 = s1\<lparr>temporal_index := sorted_ids\<rparr>
                  in (case sort_buckets (semantic_index s2) (type_index s2) of
                        (Some e, buckets) \<Rightarrow> (Inl e, s2\<lparr>type_index := buckets\<rparr>)
                      | (None, buckets) \<Rightarrow> (Inr (), s2\<lparr>type_index := buckets\<rparr>))))"

text \<open>\<^verbatim>\<open>MemorySystem.__init__\<close> on a database: empty indices, then \<^verbatim>\<open>load_memories\<close>.\<close>

definition empty_system :: "storage_manager \<Rightarrow> memory_system" where
  "empty_system db =
     \<lparr> semantic_index = [], temporal_index = [], importance_index = [],
       type_index = [], storage = db \<rparr>"

definition init_system :: "json_codec \<Rightarrow> storage_manager \<Rightarrow> (error + unit) \<times> memory_system" where
  "init_system J db = load_memories J (empty_system db)"

text \<open>
  The two conditionals of \<^verbatim>\<open>connect_memories\<close> on \<^verbatim>\<open>source.relationships\<close>: the
  relationship gets an empty list when it has none, and the target is appended unless
  the list holds it.
\<close>

definition add_relationship ::
  "string \<Rightarrow> string \<Rightarrow> (string \<times> string list) list \<Rightarrow> (string \<times> string list) list" where
  "add_relationship target_id relationship rels0 =
     (let rels = ensure_bucket relationship rels0
      in if target_id \<notin> set (dict_get_list rels relationship)
         then dict_set relationship (dict_get_list rels relationship @ [target_id]) rels
         else rels)"

text \<open>
  \<^verbatim>\<open>connect_memories\<close>. The source experience is mutated in place; in the model the
  entry of the semantic index is replaced by the mutated memory.
\<close>

definition connect_memories ::
  "json_codec \<Rightarrow> string \<Rightarrow> string \<Rightarrow> string \<Rightarrow> memory_system \<Rightarrow> (error + unit) \<times> memory_system" where
  "connect_memories J source_id target_id relationship s =
     (case map_of (semantic_index s) source_id of
        None \<Rightarrow> (Inl (KeyError source_id), s)
      | Some source \<Rightarrow>
          (case map_of (semantic_index s) target_id of
             None \<Rightarrow> (Inl (KeyError target_id), s)
           | Some target \<Rightarrow>
               let rels' = add_relationship target_id relationship
                             (relationships (experience source));
                   source' = source\<lparr>experience := (experience source)\<lparr>relationships := rels'\<rparr>\<rparr>;
                   s1 = s\<lparr>semantic_index := dict_set source_id source' (semantic_index s)\<rparr>
               in (case store_memory J (storage s1) source' of
                     Inl e \<Rightarrow> (Inl e, s1)
                   | Inr db \<Rightarrow> (Inr (), s1\<lparr>storage := db\<rparr>))))"

text \<open>
  A sequence of \<^verbatim>\<open>record_experience\<close> calls on one memory system; the next call
  goes on from the state the last one left, whether that one returned or raised.
\<close>

definition record_all :: "json_codec \<Rightarrow> record_call list \<Rightarrow> memory_system \<Rightarrow> memory_system" where
  "record_all J calls s = foldl (\<lambda>s c. snd (record_experience J c s)) s calls"

subsection \<open>Notions used in the statements\<close>

abbreviation mem_id :: "memory \<Rightarrow> string" where
  "mem_id m \<equiv> exp_id (experience m)"

abbreviation mem_type :: "memory \<Rightarrow> string" where
  "mem_type m \<equiv> exp_type (experience m)"

abbreviation mem_timestamp :: "memory \<Rightarrow> string" where
  "mem_timestamp m \<equiv> timestamp (experience m)"

abbreviation mem_importance :: "memory \<Rightarrow> real" where
  "mem_importance m \<equiv> importance (experience m)"

text \<open>
  The memories a sequence of calls creates, oldest first: a call whose embedding request
  raises creates none.
\<close>

fun recorded :: "record_call list \<Rightarrow> memory list" where
  "recorded [] = []"
| "recorded (c # cs) =
     (case provider_embedding c of
        Inl e \<Rightarrow> recorded cs
      | Inr emb \<Rightarrow> new_memory c emb # recorded cs)"

text \<open>
  \<open>ys\<close> is \<open>xs\<close> in descending order of \<open>key\<close>, elements of equal key in the order they
  have in \<open>xs\<close>. There is one such list for each \<open>xs\<close>.
\<close>

definition stable_descending :: "('a \<Rightarrow> 'k::linorder) \<Rightarrow> 'a list \<Rightarrow> 'a list \<Rightarrow> bool" where
  "stable_descending key xs ys \<longleftrightarrow>
     sorted_wrt (\<lambda>a b. key b \<le> key a) ys \<and>
     (\<forall>k. filter (\<lambda>x. key x = k) ys = filter (\<lambda>x. key x = k) xs)"

text \<open>The insertion of \<open>insert_before_smaller\<close>, on values instead of ids.\<close>

fun insert_desc :: "('a \<Rightarrow> 'k::linorder) \<Rightarrow> 'a \<Rightarrow> 'a list \<Rightarrow> 'a list" where
  "insert_desc key x [] = [x]"
| "insert_desc key x (y # ys) =
     (if key y < key x then x # y # ys else y # insert_desc key x ys)"

text \<open>
  The state of the indices once the memories \<open>ms\<close> (of distinct ids) have been recorded
  in this order.
\<close>

definition holds_recorded :: "memory list \<Rightarrow> memory_system \<Rightarrow> bool" where
  "holds_recorded ms s \<longleftrightarrow>
     distinct (map mem_id ms) \<and>
     semantic_index s = map (\<lambda>m. (mem_id m, m)) ms \<and>
     temporal_index s = rev (map mem_id ms) \<and>
     (\<exists>L. importance_index s = map mem_id L \<and> set L = set ms \<and>
          stable_descending mem_importance ms L) \<and>
     (\<forall>t. dict_get_list (type_index s) t = rev (map mem_id (filter (\<lambda>m. mem_type m = t) ms)))"

text \<open>
  The state of the indices inside the first loop of \<^verbatim>\<open>load_memories\<close>, once the
  memories \<open>ms\<close> (of distinct ids) have been taken in.
\<close>

definition holds_loaded :: "memory list \<Rightarrow> memory_system \<Rightarrow> bool" where
  "holds_loaded ms s \<longleftrightarrow>
     distinct (map mem_id ms) \<and>
     semantic_index s = map (\<lambda>m. (mem_id m, m)) ms \<and>
     temporal_index s = map mem_id ms \<and>
     (\<exists>L. importance_index s = map mem_id L \<and> set L = set ms) \<and>
     distinct (map fst (type_index s)) \<and>
     (\<forall>t. dict_get_list (type_index s) t = map mem_id (filter (\<lambda>m. mem_type m = t) ms))"

text \<open>
  The states a memory system goes through from its creation on an empty database, by
  \<^verbatim>\<open>record_experience\<close> and \<^verbatim>\<open>connect_memories\<close> calls, whether they raise or not.
\<close>

inductive reachable :: "json_codec \<Rightarrow> memory_system \<Rightarrow> bool" for J :: json_codec where
  created: "reachable J (empty_system db)"
| recorded: "reachable J s \<Longrightarrow> reachable J (snd (record_experience J c s))"
| connected: "reachable J s \<Longrightarrow> reachable J (snd (connect_memories J a b r s))"








subsection \<open>Concrete inputs\<close>

text \<open>
  Values at which the theorems below are evaluated: the codec, two databases, and some
  calls.
\<close>

definition example_codec :: json_codec where
  "example_codec = python_json"

definition working_db :: storage_manager where
  "working_db = \<lparr> rows = [], accepts_writes = True \<rparr>"

definition broken_db :: storage_manager where
  "broken_db = \<lparr> rows = [], accepts_writes = False \<rparr>"

definition call_a :: record_call where
  "call_a =
     \<lparr> call_type = ''action'', call_content = [(''k'', JNull)], call_metadata = None,
       call_tags = Some [''red''], call_importance = 1, call_context = None,
       uuid4 = ''a'', now_timestamp = ''2024-01-01T10:00:00'',
       now_last_accessed = ''2024-01-01T10:00:00'', provider_embedding = Inr [1, 0] \<rparr>"

definition call_b :: record_call where
  "call_b =
     \<lparr> call_type = ''perception'', call_content = [], call_metadata = None,
       call_tags = None, call_importance = 2, call_context = None,
       uuid4 = ''b'', now_timestamp = ''2024-01-01T10:00:01'',
       now_last_accessed = ''2024-01-01T10:00:01'', provider_embedding = Inr [0, 1] \<rparr>"

text \<open>A call whose type is the empty string.\<close>

definition call_untyped :: record_call where
  "call_untyped =
     \<lparr> call_type = [], call_content = [], call_metadata = None,
       call_tags = None, call_importance = 1, call_context = None,
       uuid4 = ''c'', now_timestamp = ''2024-01-01T10:00:02'',
       now_last_accessed = ''2024-01-01T10:00:02'', provider_embedding = Inr [0, 1] \<rparr>"

definition example_clock :: "nat \<Rightarrow> string" where
  "example_clock i = ''2024-01-02T00:00:00''"

text \<open>
  A call like \<open>call_b\<close> at the clock reading of \<open>call_a\<close>, and two databases that hold the
  rows of these two memories in either order.
\<close>

definition call_twin :: record_call where
  "call_twin = call_b\<lparr>now_timestamp := ''2024-01-01T10:00:00''\<rparr>"

definition db_ab :: storage_manager where
  "db_ab = \<lparr> rows = [memory_data example_codec (new_memory call_a [1, 0]),
                     memory_data example_codec (new_memory call_twin [0, 1])],
             accepts_writes = True \<rparr>"

definition db_ba :: storage_manager where
  "db_ba = \<lparr> rows = [memory_data example_codec (new_memory call_twin [0, 1]),
                     memory_data example_codec (new_memory call_a [1, 0])],
             accepts_writes = True \<rparr>"



text \<open>A memory system after one and after two successful calls.\<close>

definition system_a :: memory_system where
  "system_a = record_all example_codec [call_a] (empty_system working_db)"

definition system_ab :: memory_system where
  "system_ab = record_all example_codec [call_a, call_b] (empty_system working_db)"

section \<open>Basic facts\<close>

subsection \<open>Dictionaries\<close>

lemma map_of_dict_set: "map_of (dict_set k v d) = (map_of d)(k \<mapsto> v)"
  by (induction d) (auto simp: fun_eq_iff)

lemma dom_dict_set: "dom (map_of (dict_set k v d)) = insert k (dom (map_of d))"
  by (simp add: map_of_dict_set)

lemma dict_set_fresh: "map_of d k = None \<Longrightarrow> dict_set k v d = d @ [(k, v)]"
  by (induction d) (auto split: if_splits)

lemma dict_set_same: "map_of d k = Some v \<Longrightarrow> dict_set k v d = d"
  by (induction d) (auto split: if_splits)

lemma keys_dict_set_present: "map_of d k = Some w \<Longrightarrow> map fst (dict_set k v d) = map fst d"
  by (induction d) (auto split: if_splits)

lemma keys_set_dict_set: "set (map fst (dict_set k v d)) = insert k (set (map fst d))"
proof -
  have "dom (map_of (dict_set k v d)) = insert k (dom (map_of d))"
    by (rule dom_dict_set)
  then show ?thesis by (simp add: dom_map_of_conv_image_fst)
qed

lemma distinct_keys_dict_set:
  "distinct (map fst d) \<Longrightarrow> distinct (map fst (dict_set k v d))"
proof (induction d)
  case Nil
  then show ?case by simp
next
  case (Cons p d)
  obtain k' v' where p: "p = (k', v')" by (cases p)
  show ?case
  proof (cases "k' = k")
    case True
    with Cons.prems p show ?thesis by simp
  next
    case False
    from Cons.prems p have "k' \<notin> set (map fst d)" "distinct (map fst d)" by simp_all
    with False Cons.IH have "k' \<notin> set (map fst (dict_set k v d))" "distinct (map fst (dict_set k v d))"
      by (simp_all add: keys_set_dict_set del: set_map)
    with False p show ?thesis by (simp del: set_map)
  qed
qed

lemma dict_get_list_dict_set:
  "dict_get_list (dict_set k v d) k' = (if k' = k then v else dict_get_list d k')"
  by (simp add: dict_get_list_def map_of_dict_set)

lemma dict_get_list_ensure_bucket:
  "dict_get_list (ensure_bucket t d) k = dict_get_list d k"
  by (simp add: ensure_bucket_def dict_get_list_def map_of_dict_set)

lemma distinct_keys_ensure_bucket:
  "distinct (map fst d) \<Longrightarrow> distinct (map fst (ensure_bucket t d))"
  by (simp add: ensure_bucket_def distinct_keys_dict_set)

lemma entry_dict_get_list:
  "distinct (map fst d) \<Longrightarrow> p \<in> set d \<Longrightarrow> dict_get_list d (fst p) = snd p"
  by (cases p) (simp add: dict_get_list_def)

lemma map_of_map_entries:
  "map_of (map (\<lambda>p. (fst p, g (fst p))) d) t = Some ids \<Longrightarrow> ids = g t"
  by (induction d) (auto split: if_splits)

subsection \<open>Slices\<close>

lemma slice_to_map: "slice_to k (map f xs) = map f (slice_to k xs)"
  by (simp add: slice_to_def take_map)

lemma set_slice_to: "set (slice_to k xs) \<subseteq> set xs"
  by (auto simp: slice_to_def dest: in_set_takeD)

lemma slice_to_nat: "slice_to (int k) xs = take k xs"
  by (simp add: slice_to_def)

lemma prefix_filter_take: "prefix (filter P (take n xs)) (filter P xs)"
proof -
  have "filter P xs = filter P (take n xs) @ filter P (drop n xs)"
    by (metis append_take_drop_id filter_append)
  then show ?thesis by (metis prefixI)
qed

lemma prefix_filter_slice_to: "prefix (filter P (slice_to k xs)) (filter P xs)"
  by (simp add: slice_to_def prefix_filter_take)

lemma sorted_wrt_slice_to: "sorted_wrt R xs \<Longrightarrow> sorted_wrt R (slice_to k xs)"
  by (simp add: slice_to_def)

subsection \<open>Sorting\<close>

lemma insort_by_less: "insort_by (<) f x ys = insort_key f x ys"
  by (induction ys) (auto simp: not_less)

lemma foldr_insort_by_less: "foldr (insort_by (<) f) xs [] = sort_key f xs"
  by (induction xs) (simp_all add: insort_by_less)

lemma list_sort_reverse: "list_sort (<) f True xs = rev (sort_key f (rev xs))"
  by (simp add: list_sort_def foldr_insort_by_less)

lemma stable_descending_sort: "stable_descending f xs (rev (sort_key f (rev xs)))"
proof -
  have "sorted_wrt (\<lambda>a b. f b \<le> f a) (rev (sort_key f (rev xs)))"
    using sorted_sort_key[of f "rev xs"]
    by (simp add: sorted_wrt_rev sorted_map)
  moreover have "\<And>k. filter (\<lambda>x. f x = k) (rev (sort_key f (rev xs))) = filter (\<lambda>x. f x = k) xs"
    by (simp add: rev_filter[symmetric] sort_key_stable)
  ultimately show ?thesis by (simp add: stable_descending_def)
qed

lemma stable_descending_list_sort: "stable_descending f xs (list_sort (<) f True xs)"
  by (simp add: list_sort_reverse stable_descending_sort)

lemma set_list_sort: "set (list_sort (<) (f :: 'a \<Rightarrow> 'k::linorder) True xs) = set xs"
  by (simp add: list_sort_reverse)

lemma insort_by_map:
  "insort_by lt key (h x) (map h ys) = map h (insort_by lt (\<lambda>y. key (h y)) x ys)"
  by (induction ys) auto

lemma foldr_insort_by_map:
  "foldr (insort_by lt key) (map h xs) [] = map h (foldr (insort_by lt (\<lambda>y. key (h y))) xs [])"
  by (induction xs) (simp_all add: insort_by_map)

lemma list_sort_map:
  "list_sort lt key r (map h xs) = map h (list_sort lt (\<lambda>y. key (h y)) r xs)"
  by (simp add: list_sort_def foldr_insort_by_map rev_map)

lemma insort_by_incomparable:
  "\<forall>y\<in>set ys. \<not> lt (key y) (key x) \<Longrightarrow> insort_by lt key x ys = x # ys"
  by (cases ys) auto

lemma sort_all_nan:
  "\<forall>x\<in>set xs. key x = NaN \<Longrightarrow> foldr (insort_by float_lt key) xs [] = xs"
  by (induction xs) (auto simp: insort_by_incomparable)

lemma list_sort_all_nan:
  "\<forall>x\<in>set xs. key x = NaN \<Longrightarrow> list_sort float_lt key r xs = xs"
  by (simp add: list_sort_def sort_all_nan)

lemma set_insert_desc: "set (insert_desc key x ys) = insert x (set ys)"
  by (induction ys) auto

lemma sorted_insert_desc:
  "sorted_wrt (\<lambda>a b. key b \<le> key a) ys \<Longrightarrow> sorted_wrt (\<lambda>a b. key b \<le> key a) (insert_desc key x ys)"
  by (induction ys) (auto simp: set_insert_desc)

lemma filter_insert_desc:
  "sorted_wrt (\<lambda>a b. key b \<le> key a) ys \<Longrightarrow>
   filter (\<lambda>y. key y = k) (insert_desc key x ys)
     = filter (\<lambda>y. key y = k) ys @ (if key x = k then [x] else [])"
proof (induction ys)
  case Nil
  then show ?case by simp
next
  case (Cons y ys)
  show ?case
  proof (cases "key y < key x")
    case True
    with Cons.prems have "\<forall>z\<in>set (y # ys). key z < key x" by auto
    then have "key x = k \<Longrightarrow> filter (\<lambda>y. key y = k) (y # ys) = []"
      by (auto simp: filter_empty_conv)
    with True show ?thesis by auto
  next
    case False
    with Cons show ?thesis by auto
  qed
qed

lemma stable_descending_insert_desc:
  "stable_descending key xs L \<Longrightarrow> stable_descending key (xs @ [x]) (insert_desc key x L)"
  by (simp add: stable_descending_def sorted_insert_desc filter_insert_desc)

text \<open>A stable descending arrangement is determined by the list it arranges.\<close>

lemma stable_descending_unique:
  assumes "stable_descending key xs ys" and "stable_descending key xs zs"
  shows "ys = zs"
proof -
  have "sorted_wrt (\<lambda>a b. key b \<le> key a) ys \<Longrightarrow> sorted_wrt (\<lambda>a b. key b \<le> key a) zs \<Longrightarrow>
        (\<forall>k. filter (\<lambda>x. key x = k) ys = filter (\<lambda>x. key x = k) zs) \<Longrightarrow> ys = zs"
  proof (induction ys arbitrary: zs)
    case Nil
    show ?case
    proof (cases zs)
      case Nil
      then show ?thesis by simp
    next
      case (Cons z zs')
      with Nil.prems(3)[rule_format, of "key z"] show ?thesis by simp
    qed
  next
    case (Cons y ys')
    from Cons.prems(3)[rule_format, of "key y"]
    have fy: "filter (\<lambda>x. key x = key y) zs = y # filter (\<lambda>x. key x = key y) ys'" by simp
    have "y \<in> set (filter (\<lambda>x. key x = key y) zs)"
      unfolding fy by simp
    then have yz: "y \<in> set zs" by simp
    then obtain z zs' where zs: "zs = z # zs'" by (cases zs) auto
    from Cons.prems(3)[rule_format, of "key z"] zs
    have "z \<in> set (filter (\<lambda>x. key x = key z) (y # ys'))" by simp
    then have zy: "z \<in> set (y # ys')" by (auto split: if_splits)
    from yz zs Cons.prems(2) have "key y \<le> key z" by auto
    moreover from zy Cons.prems(1) have "key z \<le> key y" by auto
    ultimately have k: "key z = key y" by simp
    with fy zs have yz_eq: "y = z" by simp
    have "\<forall>k. filter (\<lambda>x. key x = k) ys' = filter (\<lambda>x. key x = k) zs'"
    proof
      fix k
      from Cons.prems(3)[rule_format, of k] zs yz_eq
      show "filter (\<lambda>x. key x = k) ys' = filter (\<lambda>x. key x = k) zs'"
        by (cases "key z = k") simp_all
    qed
    with Cons.IH[of zs'] Cons.prems(1,2) zs have "ys' = zs'" by simp
    with yz_eq zs show ?case by simp
  qed
  with assms show ?thesis by (simp add: stable_descending_def)
qed

lemma sorted_wrt_rev_timestamps:
  "sorted (map mem_timestamp ms) \<Longrightarrow>
   sorted_wrt (\<lambda>a b. mem_timestamp b \<le> mem_timestamp a) (take k (rev (filter P ms)))"
proof -
  assume "sorted (map mem_timestamp ms)"
  then have "sorted_wrt (\<lambda>a b. mem_timestamp a \<le> mem_timestamp b) ms"
    by (simp add: sorted_map)
  then have "sorted_wrt (\<lambda>a b. mem_timestamp a \<le> mem_timestamp b) (filter P ms)"
    by (rule sorted_wrt_filter)
  then have "sorted_wrt (\<lambda>a b. mem_timestamp b \<le> mem_timestamp a) (rev (filter P ms))"
    by (simp add: sorted_wrt_rev)
  then show ?thesis by (rule sorted_wrt_take)
qed

subsection \<open>Vectors\<close>

lemma dot_zero_left: "dot v v = 0 \<Longrightarrow> length v = length w \<Longrightarrow> dot v w = 0"
  unfolding dot_def
proof (induction v arbitrary: w)
  case Nil
  then show ?case by simp
next
  case (Cons a v)
  then obtain b w' where w: "w = b # w'" by (cases w) auto
  have nn: "0 \<le> sum_list (map2 (*) v v)"
    by (induction v) auto
  from Cons.prems(1) nn have "a * a = 0" "sum_list (map2 (*) v v) = 0"
    by (auto simp: add_nonneg_eq_0_iff)
  with Cons.IH[of w'] Cons.prems(2) w show ?case by simp
qed

lemma dot_commute: "dot v w = dot w v"
  unfolding dot_def
proof (induction v arbitrary: w)
  case Nil
  then show ?case by simp
next
  case (Cons a v)
  then show ?case by (cases w) (simp_all add: mult.commute)
qed

lemma norm_vec_zero_iff: "norm_vec v = 0 \<longleftrightarrow> dot v v = 0"
  by (simp add: norm_vec_def)

text \<open>The quotient of \<open>calculate_similarity\<close> with a zero denominator is \<open>0 / 0\<close>.\<close>

lemma zero_denominator_zero_numerator:
  "length v = length w \<Longrightarrow> norm_vec v * norm_vec w = 0 \<Longrightarrow> dot v w = 0"
  using dot_zero_left[of v w] dot_zero_left[of w v] dot_commute[of v w]
  by (auto simp: norm_vec_zero_iff)

lemma calculate_similarity_zero:
  "length v = length w \<Longrightarrow> norm_vec v = 0 \<or> norm_vec w = 0 \<Longrightarrow> calculate_similarity v w = Inr NaN"
  by (auto simp: calculate_similarity_def)

lemma similarities_zero_query:
  "norm_vec q = 0 \<Longrightarrow> \<forall>m\<in>set ms. length (embedding m) = length q \<Longrightarrow>
   similarities q ms = Inr (map (\<lambda>m. (NaN, m)) ms)"
  by (induction ms) (auto simp: calculate_similarity_def)

subsection \<open>JSON text\<close>


















subsection \<open>Storage\<close>

lemma update_access_each_ok:
  "accepts_writes db \<Longrightarrow>
   \<exists>db'. update_access_each clock i ms db = (None, db') \<and> accepts_writes db'"
  by (induction ms arbitrary: i db) (auto simp: update_access_def)

lemma surface_ok:
  "accepts_writes (storage s) \<Longrightarrow>
   \<exists>db'. surface clock ms s = (Inr ms, s\<lparr>storage := db'\<rparr>) \<and> accepts_writes db'"
  using update_access_each_ok[of "storage s" clock 0 ms]
  by (auto simp: surface_def)



lemma mem_id_row_memory: "mem_id (row_memory J r) = row_id r"
  by (simp add: row_memory_def)

lemma timestamp_row_memory: "mem_timestamp (row_memory J r) = row_timestamp r"
  by (simp add: row_memory_def)

lemma ids_load_all_memories: "map mem_id (load_all_memories J db) = map row_id (rows db)"
  by (simp add: load_all_memories_def mem_id_row_memory)

subsection \<open>The importance index and the semantic map\<close>

lemma insert_before_smaller_ok:
  "set idx \<subseteq> dom (map_of sem) \<Longrightarrow>
   \<exists>idx'. insert_before_smaller sem v x idx = Inr idx'
        \<and> (\<forall>y. count_list idx' y = count_list idx y + (if y = x then 1 else 0))"
proof (induction idx)
  case Nil
  then show ?case by simp
next
  case (Cons mid mids)
  then obtain m where m: "map_of sem mid = Some m"
    by (cases "map_of sem mid") auto
  from Cons obtain idx' where
    "insert_before_smaller sem v x mids = Inr idx'"
    "\<forall>y. count_list idx' y = count_list mids y + (if y = x then 1 else 0)"
    by auto
  with m show ?case by auto
qed

lemma insert_sorted_by_importance_ok:
  assumes "set (importance_index s) \<subseteq> dom (map_of (semantic_index s))"
    and "map_of (semantic_index s) x = Some m"
  shows "\<exists>idx'. insert_sorted_by_importance x s = Inr (s\<lparr>importance_index := idx'\<rparr>)
        \<and> insert_before_smaller (semantic_index s) (importance (experience m)) x
             (importance_index s) = Inr idx'
        \<and> (\<forall>y. count_list idx' y = count_list (importance_index s) y + (if y = x then 1 else 0))"
proof -
  from insert_before_smaller_ok[OF assms(1), of "importance (experience m)" x]
  obtain idx' where a: "insert_before_smaller (semantic_index s) (importance (experience m)) x (importance_index s) = Inr idx'"
    and b: "\<forall>y. count_list idx' y = count_list (importance_index s) y + (if y = x then 1 else 0)"
    by blast
  have "insert_sorted_by_importance x s = Inr (s\<lparr>importance_index := idx'\<rparr>)"
    using assms(2) a by (simp add: insert_sorted_by_importance_def)
  with a b show ?thesis by blast
qed

text \<open>
  Where \<^verbatim>\<open>_insert_sorted_by_importance\<close> puts the new id: after every leading id whose
  importance is at least the new one, that is before the first that is strictly smaller.
\<close>

lemma insert_before_smaller_position:
  "set idx \<subseteq> dom (map_of sem) \<Longrightarrow>
   insert_before_smaller sem v x idx
     = Inr (takeWhile (\<lambda>i. \<exists>m. map_of sem i = Some m \<and> v \<le> mem_importance m) idx
            @ x # dropWhile (\<lambda>i. \<exists>m. map_of sem i = Some m \<and> v \<le> mem_importance m) idx)"
  by (induction idx) (auto simp: not_less)

lemma map_of_indexed:
  "distinct (map mem_id ms) \<Longrightarrow> m \<in> set ms \<Longrightarrow>
   map_of (map (\<lambda>m. (mem_id m, m)) ms) (mem_id m) = Some m"
  by (rule map_of_is_SomeI) (auto simp: comp_def)

lemma dom_map_of_indexed: "dom (map_of (map (\<lambda>m. (mem_id m, m)) ms)) = mem_id ` set ms"
  by (simp add: dom_map_of_conv_image_fst image_image)

lemma lookup_each_map:
  "\<forall>m\<in>set xs. map_of sem (mem_id m) = Some m \<Longrightarrow> lookup_each sem (map mem_id xs) = Inr xs"
  by (induction xs) auto

lemma insert_before_smaller_map:
  "\<forall>m'\<in>set L. map_of sem (mem_id m') = Some m' \<Longrightarrow>
   insert_before_smaller sem (mem_importance m) (mem_id m) (map mem_id L)
     = Inr (map mem_id (insert_desc mem_importance m L))"
  by (induction L) auto

subsection \<open>Recording\<close>

lemma record_experience_step:
  assumes emb: "provider_embedding c = Inr emb"
    and inv: "set (importance_index s) \<subseteq> dom (map_of (semantic_index s))"
  shows "\<exists>idx'.
     insert_before_smaller (dict_set (uuid4 c) (new_memory c emb) (semantic_index s))
        (call_importance c) (uuid4 c) (importance_index s) = Inr idx'
   \<and> (\<forall>y. count_list idx' y = count_list (importance_index s) y + (if y = uuid4 c then 1 else 0))
   \<and> record_experience J c s =
       (case store_memory J (storage s) (new_memory c emb) of
          Inl e \<Rightarrow> (Inl e,
             s\<lparr>semantic_index := dict_set (uuid4 c) (new_memory c emb) (semantic_index s),
               temporal_index := uuid4 c # temporal_index s,
               importance_index := idx',
               type_index := dict_set (call_type c)
                               (uuid4 c # dict_get_list (type_index s) (call_type c))
                               (ensure_bucket (call_type c) (type_index s))\<rparr>)
        | Inr db \<Rightarrow> (Inr (new_experience c),
             s\<lparr>semantic_index := dict_set (uuid4 c) (new_memory c emb) (semantic_index s),
               temporal_index := uuid4 c # temporal_index s,
               importance_index := idx',
               type_index := dict_set (call_type c)
                               (uuid4 c # dict_get_list (type_index s) (call_type c))
                               (ensure_bucket (call_type c) (type_index s)),
               storage := db\<rparr>))"
proof -
  let ?m = "new_memory c emb"
  let ?s2 = "s\<lparr>semantic_index := dict_set (uuid4 c) ?m (semantic_index s),
               temporal_index := uuid4 c # temporal_index s\<rparr>"
  have sub: "set (importance_index ?s2) \<subseteq> dom (map_of (semantic_index ?s2))"
    using inv by (auto simp: map_of_dict_set)
  have look: "map_of (semantic_index ?s2) (uuid4 c) = Some ?m"
    by (simp add: map_of_dict_set)
  from insert_sorted_by_importance_ok[OF sub look]
  obtain idx' where
    i1: "insert_sorted_by_importance (uuid4 c) ?s2 = Inr (?s2\<lparr>importance_index := idx'\<rparr>)"
    and i2: "insert_before_smaller (semantic_index ?s2) (importance (experience ?m)) (uuid4 c)
               (importance_index ?s2) = Inr idx'"
    and i3: "\<forall>y. count_list idx' y = count_list (importance_index ?s2) y + (if y = uuid4 c then 1 else 0)"
    by blast
  have e: "exp_id (new_experience c) = uuid4 c" "exp_type (new_experience c) = call_type c"
    "importance (experience ?m) = call_importance c"
    by (simp_all add: new_experience_def new_memory_def)
  have "record_experience J c s =
       (case store_memory J (storage s) ?m of
          Inl e \<Rightarrow> (Inl e,
             s\<lparr>semantic_index := dict_set (uuid4 c) ?m (semantic_index s),
               temporal_index := uuid4 c # temporal_index s,
               importance_index := idx',
               type_index := dict_set (call_type c)
                               (uuid4 c # dict_get_list (type_index s) (call_type c))
                               (ensure_bucket (call_type c) (type_index s))\<rparr>)
        | Inr db \<Rightarrow> (Inr (new_experience c),
             s\<lparr>semantic_index := dict_set (uuid4 c) ?m (semantic_index s),
               temporal_index := uuid4 c # temporal_index s,
               importance_index := idx',
               type_index := dict_set (call_type c)
                               (uuid4 c # dict_get_list (type_index s) (call_type c))
                               (ensure_bucket (call_type c) (type_index s)),
               storage := db\<rparr>))"
    using i1 by (simp add: record_experience_def emb Let_def e dict_get_list_ensure_bucket
        split: sum.splits)
  with i2 i3 show ?thesis by (simp add: e)
qed

lemma holds_recorded_empty: "holds_recorded [] (empty_system db)"
  by (simp add: holds_recorded_def empty_system_def stable_descending_def dict_get_list_def)

lemma new_memory_fields:
  "mem_id (new_memory c emb) = uuid4 c"
  "mem_type (new_memory c emb) = call_type c"
  "mem_importance (new_memory c emb) = call_importance c"
  "mem_timestamp (new_memory c emb) = now_timestamp c"
  by (simp_all add: new_memory_def new_experience_def)

lemma record_experience_holds:
  assumes h: "holds_recorded ms s"
    and emb: "provider_embedding c = Inr emb"
    and fresh: "uuid4 c \<notin> mem_id ` set ms"
  shows "holds_recorded (ms @ [new_memory c emb]) (snd (record_experience J c s))
       \<and> accepts_writes (storage (snd (record_experience J c s))) = accepts_writes (storage s)"
proof -
  let ?m = "new_memory c emb"
  from h obtain L where
    d: "distinct (map mem_id ms)"
    and sem: "semantic_index s = map (\<lambda>m. (mem_id m, m)) ms"
    and tmp: "temporal_index s = rev (map mem_id ms)"
    and imp: "importance_index s = map mem_id L" "set L = set ms"
      "stable_descending mem_importance ms L"
    and ty: "\<forall>t. dict_get_list (type_index s) t = rev (map mem_id (filter (\<lambda>m. mem_type m = t) ms))"
    by (auto simp: holds_recorded_def)
  have inv: "set (importance_index s) \<subseteq> dom (map_of (semantic_index s))"
    by (simp add: sem imp dom_map_of_indexed)
  have none: "map_of (semantic_index s) (uuid4 c) = None"
    using fresh by (simp add: sem map_of_eq_None_iff image_image)
  have sem': "dict_set (uuid4 c) ?m (semantic_index s) = map (\<lambda>m. (mem_id m, m)) (ms @ [?m])"
    using dict_set_fresh[OF none, of ?m] by (simp add: sem new_memory_fields)
  have d': "distinct (map mem_id (ms @ [?m]))"
    using d fresh by (simp add: new_memory_fields)
  have look: "\<forall>m'\<in>set L. map_of (dict_set (uuid4 c) ?m (semantic_index s)) (mem_id m') = Some m'"
    unfolding sem' using map_of_indexed[OF d'] imp(2) by auto
  from record_experience_step[OF emb inv, of J]
  obtain idx' where
    i: "insert_before_smaller (dict_set (uuid4 c) ?m (semantic_index s))
        (call_importance c) (uuid4 c) (importance_index s) = Inr idx'"
    and r: "record_experience J c s =
       (case store_memory J (storage s) ?m of
          Inl e \<Rightarrow> (Inl e,
             s\<lparr>semantic_index := dict_set (uuid4 c) ?m (semantic_index s),
               temporal_index := uuid4 c # temporal_index s,
               importance_index := idx',
               type_index := dict_set (call_type c)
                               (uuid4 c # dict_get_list (type_index s) (call_type c))
                               (ensure_bucket (call_type c) (type_index s))\<rparr>)
        | Inr db \<Rightarrow> (Inr (new_experience c),
             s\<lparr>semantic_index := dict_set (uuid4 c) ?m (semantic_index s),
               temporal_index := uuid4 c # temporal_index s,
               importance_index := idx',
               type_index := dict_set (call_type c)
                               (uuid4 c # dict_get_list (type_index s) (call_type c))
                               (ensure_bucket (call_type c) (type_index s)),
               storage := db\<rparr>))"
    by blast
  have idx': "idx' = map mem_id (insert_desc mem_importance ?m L)"
    using i insert_before_smaller_map[OF look, of ?m]
    by (simp add: imp(1) new_memory_fields)
  let ?s' = "snd (record_experience J c s)"
  have f: "semantic_index ?s' = map (\<lambda>m. (mem_id m, m)) (ms @ [?m])"
    "temporal_index ?s' = uuid4 c # temporal_index s"
    "importance_index ?s' = map mem_id (insert_desc mem_importance ?m L)"
    "type_index ?s' = dict_set (call_type c)
                               (uuid4 c # dict_get_list (type_index s) (call_type c))
                               (ensure_bucket (call_type c) (type_index s))"
    "accepts_writes (storage ?s') = accepts_writes (storage s)"
    unfolding r by (auto simp: sem' idx' store_memory_def split: sum.splits if_splits)
  have t': "\<forall>t. dict_get_list (type_index ?s') t
               = rev (map mem_id (filter (\<lambda>m. mem_type m = t) (ms @ [?m])))"
    by (simp add: f(4) dict_get_list_dict_set dict_get_list_ensure_bucket ty new_memory_fields)
  have "holds_recorded (ms @ [?m]) ?s'"
    unfolding holds_recorded_def
    using d' f(1) f(2) f(3) t' imp(2) stable_descending_insert_desc[OF imp(3), of ?m]
    by (auto simp: tmp new_memory_fields set_insert_desc
        intro!: exI[of _ "insert_desc mem_importance ?m L"])
  with f(5) show ?thesis by blast
qed

lemma record_all_Cons:
  "record_all J (c # cs) s = record_all J cs (snd (record_experience J c s))"
  by (simp add: record_all_def)

lemma record_all_holds:
  "holds_recorded ms s \<Longrightarrow> distinct (map mem_id (ms @ recorded calls)) \<Longrightarrow>
   holds_recorded (ms @ recorded calls) (record_all J calls s)
   \<and> accepts_writes (storage (record_all J calls s)) = accepts_writes (storage s)"
proof (induction calls arbitrary: ms s)
  case Nil
  then show ?case by (simp add: record_all_def)
next
  case (Cons c cs)
  show ?case
  proof (cases "provider_embedding c")
    case (Inl e)
    then have "snd (record_experience J c s) = s"
      by (simp add: record_experience_def)
    with Cons Inl show ?thesis by (simp add: record_all_Cons)
  next
    case (Inr emb)
    let ?m = "new_memory c emb"
    from Cons.prems(2) Inr have fresh: "uuid4 c \<notin> mem_id ` set ms"
      by (auto simp: new_memory_fields)
    from Cons.prems(2) Inr have d: "distinct (map mem_id ((ms @ [?m]) @ recorded cs))"
      by simp
    note st = record_experience_holds[OF Cons.prems(1) Inr fresh, of J]
    from Cons.IH[OF st[THEN conjunct1] d] st[THEN conjunct2] Inr
    show ?thesis by (simp add: record_all_Cons)
  qed
qed

lemma recorded_system:
  assumes "distinct (map mem_id (recorded calls))"
  shows "holds_recorded (recorded calls) (record_all J calls (empty_system db))"
    and "accepts_writes (storage (record_all J calls (empty_system db))) = accepts_writes db"
  using record_all_holds[OF holds_recorded_empty, where calls=calls and db1=db and J=J] assms
  by (simp_all add: empty_system_def)

lemma recall_recent_holds:
  assumes h: "holds_recorded ms s" and w: "accepts_writes (storage s)"
  shows "fst (recall_recent clock limit None s) = Inr (slice_to limit (rev ms))"
    and "fst (recall_recent clock limit (Some []) s) = Inr (slice_to limit (rev ms))"
    and "t \<noteq> [] \<Longrightarrow> fst (recall_recent clock limit (Some t) s)
            = Inr (slice_to limit (rev (filter (\<lambda>m. mem_type m = t) ms)))"
proof -
  from h have d: "distinct (map mem_id ms)"
    and sem: "semantic_index s = map (\<lambda>m. (mem_id m, m)) ms"
    and tmp: "temporal_index s = rev (map mem_id ms)"
    and ty: "\<And>t. dict_get_list (type_index s) t = rev (map mem_id (filter (\<lambda>m. mem_type m = t) ms))"
    by (auto simp: holds_recorded_def)
  have look: "\<And>xs. set xs \<subseteq> set ms \<Longrightarrow> lookup_each (semantic_index s) (map mem_id xs) = Inr xs"
    by (rule lookup_each_map) (auto simp: sem map_of_indexed[OF d])
  have sur: "\<And>xs. fst (surface clock xs s) = Inr xs"
    using surface_ok[OF w] by (metis fst_conv)
  have a: "slice_to limit (temporal_index s) = map mem_id (slice_to limit (rev ms))"
    by (simp add: tmp rev_map slice_to_map)
  have b: "\<And>t. slice_to limit (dict_get_list (type_index s) t)
             = map mem_id (slice_to limit (rev (filter (\<lambda>m. mem_type m = t) ms)))"
    by (simp add: ty rev_map slice_to_map)
  have la: "lookup_each (semantic_index s) (map mem_id (slice_to limit (rev ms)))
              = Inr (slice_to limit (rev ms))"
    using set_slice_to[of limit "rev ms"] by (intro look) auto
  have lb: "\<And>t. lookup_each (semantic_index s)
                (map mem_id (slice_to limit (rev (filter (\<lambda>m. mem_type m = t) ms))))
              = Inr (slice_to limit (rev (filter (\<lambda>m. mem_type m = t) ms)))"
    using set_slice_to[of limit "rev (filter (\<lambda>m. mem_type m = _) ms)"] by (intro look) auto
  show "fst (recall_recent clock limit None s) = Inr (slice_to limit (rev ms))"
    by (simp add: recall_recent_def a la sur)
  show "fst (recall_recent clock limit (Some []) s) = Inr (slice_to limit (rev ms))"
    by (simp add: recall_recent_def a la sur)
  show "t \<noteq> [] \<Longrightarrow> fst (recall_recent clock limit (Some t) s)
            = Inr (slice_to limit (rev (filter (\<lambda>m. mem_type m = t) ms)))"
    by (simp add: recall_recent_def b lb sur)
qed

lemma recall_important_holds:
  assumes h: "holds_recorded ms s" and w: "accepts_writes (storage s)"
  shows "\<exists>L. stable_descending mem_importance ms L \<and> set L = set ms
           \<and> fst (recall_important clock limit s) = Inr (slice_to limit L)"
proof -
  from h obtain L where d: "distinct (map mem_id ms)"
    and sem: "semantic_index s = map (\<lambda>m. (mem_id m, m)) ms"
    and imp: "importance_index s = map mem_id L" "set L = set ms"
      "stable_descending mem_importance ms L"
    by (auto simp: holds_recorded_def)
  have look: "lookup_each (semantic_index s) (map mem_id (slice_to limit L)) = Inr (slice_to limit L)"
    using set_slice_to[of limit L] imp(2)
    by (intro lookup_each_map) (auto simp: sem map_of_indexed[OF d])
  have sur: "\<And>xs. fst (surface clock xs s) = Inr xs"
    using surface_ok[OF w] by (metis fst_conv)
  have "fst (recall_important clock limit s) = Inr (slice_to limit L)"
    by (simp add: recall_important_def imp(1) slice_to_map look sur)
  with imp show ?thesis by blast
qed

subsection \<open>Reloading\<close>

lemma holds_loaded_empty:
  "holds_loaded [] (s\<lparr>semantic_index := [], temporal_index := [],
                      importance_index := [], type_index := []\<rparr>)"
  by (simp add: holds_loaded_def dict_get_list_def)

lemma rebuild_indices_holds:
  "holds_loaded ms s \<Longrightarrow> distinct (map mem_id (ms @ ms')) \<Longrightarrow>
   \<exists>s'. rebuild_indices ms' s = (None, s') \<and> holds_loaded (ms @ ms') s' \<and> storage s' = storage s"
proof (induction ms' arbitrary: ms s)
  case Nil
  then show ?case by simp
next
  case (Cons m ms')
  from Cons.prems(1) obtain L where
    d: "distinct (map mem_id ms)"
    and sem: "semantic_index s = map (\<lambda>m. (mem_id m, m)) ms"
    and tmp: "temporal_index s = map mem_id ms"
    and imp: "importance_index s = map mem_id L" "set L = set ms"
    and dk: "distinct (map fst (type_index s))"
    and ty: "\<forall>t. dict_get_list (type_index s) t = map mem_id (filter (\<lambda>m. mem_type m = t) ms)"
    by (auto simp: holds_loaded_def)
  let ?s2 = "s\<lparr>semantic_index := dict_set (mem_id m) m (semantic_index s),
                temporal_index := temporal_index s @ [mem_id m]\<rparr>"
  from Cons.prems(2) have fresh: "mem_id m \<notin> mem_id ` set ms" by auto
  have none: "map_of (semantic_index s) (mem_id m) = None"
    using fresh by (simp add: sem map_of_eq_None_iff image_image)
  have sem': "dict_set (mem_id m) m (semantic_index s) = map (\<lambda>m. (mem_id m, m)) (ms @ [m])"
    using dict_set_fresh[OF none, of m] by (simp add: sem)
  have d': "distinct (map mem_id (ms @ [m]))"
    using d fresh by simp
  have look: "\<forall>m'\<in>set L. map_of (semantic_index ?s2) (mem_id m') = Some m'"
    using map_of_indexed[OF d'] imp(2) by (auto simp: sem')
  have lookm: "map_of (semantic_index ?s2) (mem_id m) = Some m"
    by (simp add: map_of_dict_set)
  have ins: "insert_sorted_by_importance (mem_id m) ?s2
               = Inr (?s2\<lparr>importance_index := map mem_id (insert_desc mem_importance m L)\<rparr>)"
    using insert_before_smaller_map[OF look, of m] lookm
    by (simp add: insert_sorted_by_importance_def imp(1))
  let ?d = "ensure_bucket (mem_type m) (type_index s)"
  let ?s4 = "?s2\<lparr>importance_index := map mem_id (insert_desc mem_importance m L),
                  type_index := dict_set (mem_type m) (dict_get_list ?d (mem_type m) @ [mem_id m]) ?d\<rparr>"
  have step: "rebuild_indices (m # ms') s = rebuild_indices ms' ?s4"
    by (simp add: Let_def ins)
  have h4: "holds_loaded (ms @ [m]) ?s4"
    unfolding holds_loaded_def
    using d' imp(2) dk
    by (auto simp: sem' tmp set_insert_desc dict_get_list_dict_set dict_get_list_ensure_bucket ty
        distinct_keys_dict_set distinct_keys_ensure_bucket
        intro!: exI[of _ "insert_desc mem_importance m L"])
  from Cons.prems(2) have d4: "distinct (map mem_id ((ms @ [m]) @ ms'))" by simp
  from Cons.IH[OF h4 d4] show ?case
    unfolding step by simp
qed

lemma sort_by_timestamp_map:
  assumes "\<forall>m\<in>set B. map_of sem (mem_id m) = Some m"
  shows "sort_by_timestamp sem (map mem_id B)
           = Inr (map mem_id (list_sort (<) mem_timestamp True B))"
proof -
  have l: "lookup_each sem (map mem_id B) = Inr B"
    by (rule lookup_each_map[OF assms])
  have z: "zip (map mem_id B) (map mem_timestamp B) = map (\<lambda>m. (mem_id m, mem_timestamp m)) B"
    by (induction B) auto
  show ?thesis
    by (simp add: sort_by_timestamp_def l z list_sort_map comp_def)
qed

lemma sort_buckets_map:
  assumes "\<forall>p\<in>set d. snd p = map mem_id (B (fst p))
                    \<and> (\<forall>m\<in>set (B (fst p)). map_of sem (mem_id m) = Some m)"
  shows "sort_buckets sem d
           = (None, map (\<lambda>p. (fst p, map mem_id (list_sort (<) mem_timestamp True (B (fst p))))) d)"
  using assms
proof (induction d)
  case Nil
  then show ?case by simp
next
  case (Cons p d)
  obtain t ids where p: "p = (t, ids)" by (cases p)
  from Cons.prems p have ids: "ids = map mem_id (B t)"
    and look: "\<forall>m\<in>set (B t). map_of sem (mem_id m) = Some m"
    by auto
  from Cons have rest: "sort_buckets sem d
           = (None, map (\<lambda>p. (fst p, map mem_id (list_sort (<) mem_timestamp True (B (fst p))))) d)"
    by simp
  show ?case
    by (simp add: p ids sort_by_timestamp_map[OF look] rest)
qed

lemma load_memories_result:
  assumes "distinct (map mem_id (load_all_memories J (storage s)))"
  shows "\<exists>s'. load_memories J s = (Inr (), s')
     \<and> storage s' = storage s
     \<and> semantic_index s' = map (\<lambda>m. (mem_id m, m)) (load_all_memories J (storage s))
     \<and> temporal_index s'
         = map mem_id (list_sort (<) mem_timestamp True (load_all_memories J (storage s)))
     \<and> (\<forall>t ids. map_of (type_index s') t = Some ids \<longrightarrow>
           ids = map mem_id (list_sort (<) mem_timestamp True
                   (filter (\<lambda>m. mem_type m = t) (load_all_memories J (storage s)))))"
proof -
  define ms where "ms = load_all_memories J (storage s)"
  let ?s0 = "s\<lparr>semantic_index := [], temporal_index := [],
                importance_index := [], type_index := []\<rparr>"
  from assms have d: "distinct (map mem_id ([] @ ms))" by (simp add: ms_def)
  from rebuild_indices_holds[OF holds_loaded_empty d, of s]
  obtain s1 where r: "rebuild_indices ms ?s0 = (None, s1)"
    and h: "holds_loaded ms s1" and st: "storage s1 = storage s"
    by auto
  from h have dm: "distinct (map mem_id ms)"
    and sem: "semantic_index s1 = map (\<lambda>m. (mem_id m, m)) ms"
    and tmp: "temporal_index s1 = map mem_id ms"
    and dk: "distinct (map fst (type_index s1))"
    and ty: "\<forall>t. dict_get_list (type_index s1) t = map mem_id (filter (\<lambda>m. mem_type m = t) ms)"
    by (auto simp: holds_loaded_def)
  have look: "\<forall>m\<in>set ms. map_of (semantic_index s1) (mem_id m) = Some m"
    by (simp add: sem map_of_indexed[OF dm])
  have t1: "sort_by_timestamp (semantic_index s1) (temporal_index s1)
              = Inr (map mem_id (list_sort (<) mem_timestamp True ms))"
    unfolding tmp by (rule sort_by_timestamp_map[OF look])
  define B where "B = (\<lambda>t. filter (\<lambda>m. mem_type m = t) ms)"
  define g where "g = (\<lambda>t. map mem_id (list_sort (<) mem_timestamp True (B t)))"
  have b: "\<forall>p\<in>set (type_index s1).
             snd p = map mem_id (B (fst p))
             \<and> (\<forall>m\<in>set (B (fst p)). map_of (semantic_index s1) (mem_id m) = Some m)"
  proof (intro ballI conjI)
    fix p assume "p \<in> set (type_index s1)"
    then have "dict_get_list (type_index s1) (fst p) = snd p"
      by (rule entry_dict_get_list[OF dk])
    with ty show "snd p = map mem_id (B (fst p))" by (simp add: B_def)
  next
    fix p :: "string \<times> string list" and m
    assume "m \<in> set (B (fst p))"
    then have "m \<in> set ms" by (simp add: B_def)
    with look show "map_of (semantic_index s1) (mem_id m) = Some m" by blast
  qed
  have sb: "sort_buckets (semantic_index s1) (type_index s1)
              = (None, map (\<lambda>p. (fst p, g (fst p))) (type_index s1))"
    unfolding g_def by (rule sort_buckets_map[OF b])
  define s' where "s' = s1\<lparr>temporal_index := map mem_id (list_sort (<) mem_timestamp True ms),
                 type_index := map (\<lambda>p. (fst p, g (fst p))) (type_index s1)\<rparr>"
  have l0: "load_memories J s =
      (case rebuild_indices ms ?s0 of
           (Some e, s1) \<Rightarrow> (Inl e, s1)
         | (None, s1) \<Rightarrow>
             (case sort_by_timestamp (semantic_index s1) (temporal_index s1) of
                Inl e \<Rightarrow> (Inl e, s1)
              | Inr sorted_ids \<Rightarrow>
                  (case sort_buckets (semantic_index s1) (type_index s1) of
                        (Some e, buckets) \<Rightarrow> (Inl e, s1\<lparr>temporal_index := sorted_ids, type_index := buckets\<rparr>)
                      | (None, buckets) \<Rightarrow> (Inr (), s1\<lparr>temporal_index := sorted_ids, type_index := buckets\<rparr>))))"
    unfolding load_memories_def ms_def Let_def
    by (simp split: prod.splits option.splits sum.splits)
  have l: "load_memories J s = (Inr (), s')"
    unfolding l0 r by (simp add: t1 sb s'_def)
  have e: "\<forall>t ids. map_of (type_index s') t = Some ids \<longrightarrow> ids = g t"
  proof (intro allI impI)
    fix t ids assume "map_of (type_index s') t = Some ids"
    then have "map_of (map (\<lambda>p. (fst p, g (fst p))) (type_index s1)) t = Some ids"
      by (simp add: s'_def)
    then show "ids = g t" by (rule map_of_map_entries)
  qed
  have f: "storage s' = storage s" "semantic_index s' = map (\<lambda>m. (mem_id m, m)) ms"
    "temporal_index s' = map mem_id (list_sort (<) mem_timestamp True ms)"
    by (simp_all add: s'_def st sem)
  show ?thesis
    unfolding ms_def[symmetric]
    using l f e unfolding g_def B_def by blast
qed

lemma temporal_after_load:
  assumes "distinct (map row_id (rows db))"
  shows "temporal_index (snd (load_memories J (empty_system db)))
           = map fst (list_sort (<) snd True (zip (map row_id (rows db)) (map row_timestamp (rows db))))"
proof -
  have d: "distinct (map mem_id (load_all_memories J (storage (empty_system db))))"
    using assms by (simp add: ids_load_all_memories empty_system_def)
  from load_memories_result[OF d]
  have "temporal_index (snd (load_memories J (empty_system db)))
          = map mem_id (list_sort (<) mem_timestamp True (load_all_memories J db))"
    by (auto simp: empty_system_def)
  also have "\<dots> = map fst (list_sort (<) snd True
                 (map (\<lambda>m. (mem_id m, mem_timestamp m)) (load_all_memories J db)))"
    by (simp add: list_sort_map comp_def)
  also have "map (\<lambda>m. (mem_id m, mem_timestamp m)) (load_all_memories J db)
               = zip (map row_id (rows db)) (map row_timestamp (rows db))"
    by (simp add: load_all_memories_def mem_id_row_memory timestamp_row_memory zip_map_map
        comp_def zip_same_conv_map)
  finally show ?thesis .
qed

subsection \<open>Connecting\<close>

lemma dict_get_list_add_relationship:
  "dict_get_list (add_relationship b r rels) r
     = (if b \<in> set (dict_get_list rels r) then dict_get_list rels r
        else dict_get_list rels r @ [b])"
  by (simp add: add_relationship_def Let_def dict_get_list_ensure_bucket dict_get_list_dict_set)

lemma dict_get_list_add_relationship_other:
  "r' \<noteq> r \<Longrightarrow> dict_get_list (add_relationship b r rels) r' = dict_get_list rels r'"
  by (simp add: add_relationship_def Let_def dict_get_list_ensure_bucket dict_get_list_dict_set)

lemma add_relationship_idem:
  "add_relationship b r (add_relationship b r rels) = add_relationship b r rels"
proof -
  have "map_of (add_relationship b r rels) r \<noteq> None"
    by (auto simp: add_relationship_def Let_def ensure_bucket_def map_of_dict_set)
  moreover have "b \<in> set (dict_get_list (add_relationship b r rels) r)"
    by (simp add: dict_get_list_add_relationship)
  ultimately show ?thesis
    by (subst (1) add_relationship_def) (auto simp: Let_def ensure_bucket_def)
qed

lemma count_list_le_1:
  assumes "count_list xs b \<le> 1"
  shows "count_list (if b \<in> set xs then xs else xs @ [b]) b = 1"
proof (cases "b \<in> set xs")
  case True
  then have "count_list xs b \<noteq> 0"
    using count_list_0_iff[of xs b] by blast
  with assms True show ?thesis by simp
next
  case False
  then have "count_list xs b = 0"
    using count_list_0_iff[of xs b] by blast
  with False show ?thesis by simp
qed

text \<open>\<^verbatim>\<open>connect_memories\<close> between two stored memories, in closed form.\<close>

lemma connect_memories_state:
  assumes "map_of (semantic_index s) a = Some A" "map_of (semantic_index s) b = Some B"
  shows "\<exists>res db.
     connect_memories J a b r s =
       (res, s\<lparr>semantic_index :=
                 dict_set a (A\<lparr>experience := (experience A)
                     \<lparr>relationships := add_relationship b r (relationships (experience A))\<rparr>\<rparr>)
                   (semantic_index s),
               storage := db\<rparr>)
     \<and> (accepts_writes (storage s) \<longrightarrow> res = Inr () \<and> accepts_writes db)
     \<and> (\<not> accepts_writes (storage s) \<longrightarrow> res = Inl SqliteError \<and> db = storage s)"
  using assms by (auto simp: connect_memories_def Let_def store_memory_def)

subsection \<open>Reachable states\<close>

text \<open>
  In every state reached from a new memory system by recording and connecting, the ids
  of the importance index are keys of the semantic map, and no relationship lists a
  target twice.
\<close>

lemma set_dict_set_subset: "set (dict_set k v d) \<subseteq> insert (k, v) (set d)"
  by (induction d) (auto split: if_splits)

lemma set_ensure_bucket_subset: "set (ensure_bucket t d) \<subseteq> insert (t, []) (set d)"
  using set_dict_set_subset[of t "[]" d] by (auto simp: ensure_bucket_def)

lemma dict_get_list_distinct:
  assumes "\<forall>q\<in>set d. distinct (snd q)"
  shows "distinct (dict_get_list d k)"
proof (cases "map_of d k")
  case None
  then show ?thesis by (simp add: dict_get_list_def)
next
  case (Some v)
  then have "(k, v) \<in> set d" by (rule map_of_SomeD)
  with assms have "distinct v" by force
  with Some show ?thesis by (simp add: dict_get_list_def)
qed

lemma add_relationship_distinct:
  assumes "\<forall>q\<in>set rels. distinct (snd q)"
  shows "\<forall>q\<in>set (add_relationship b r rels). distinct (snd q)"
proof -
  let ?rels1 = "ensure_bucket r rels"
  have d1: "\<forall>q\<in>set ?rels1. distinct (snd q)"
    using assms set_ensure_bucket_subset[of r rels] by auto
  have dl: "distinct (dict_get_list ?rels1 r)"
    by (rule dict_get_list_distinct[OF d1])
  show ?thesis
  proof (cases "b \<in> set (dict_get_list ?rels1 r)")
    case True
    with d1 show ?thesis by (simp add: add_relationship_def Let_def)
  next
    case False
    with dl have "distinct (dict_get_list ?rels1 r @ [b])" by simp
    with d1 set_dict_set_subset[of r "dict_get_list ?rels1 r @ [b]" ?rels1] False
    show ?thesis by (auto simp: add_relationship_def Let_def)
  qed
qed

lemma count_list_pos_mem: "0 < count_list xs y \<Longrightarrow> y \<in> set xs"
  using count_list_0_iff[of xs y] by auto

lemma count_list_distinct: "distinct xs \<Longrightarrow> count_list xs y \<le> 1"
proof (induction xs)
  case Nil
  then show ?case by simp
next
  case (Cons x xs)
  show ?case
  proof (cases "x = y")
    case True
    with Cons.prems have "y \<notin> set xs" by simp
    then have "count_list xs y = 0" using count_list_0_iff[of xs y] by blast
    with True show ?thesis by simp
  next
    case False
    with Cons show ?thesis by simp
  qed
qed

lemma record_experience_indices:
  assumes emb: "provider_embedding c = Inr emb"
    and inv: "set (importance_index s) \<subseteq> dom (map_of (semantic_index s))"
  shows "\<exists>idx'.
     (\<forall>y. count_list idx' y = count_list (importance_index s) y + (if y = uuid4 c then 1 else 0))
   \<and> semantic_index (snd (record_experience J c s))
       = dict_set (uuid4 c) (new_memory c emb) (semantic_index s)
   \<and> importance_index (snd (record_experience J c s)) = idx'"
proof -
  from record_experience_step[OF emb inv, of J]
  obtain idx' where
    c: "\<forall>y. count_list idx' y = count_list (importance_index s) y + (if y = uuid4 c then 1 else 0)"
    and r: "record_experience J c s =
       (case store_memory J (storage s) (new_memory c emb) of
          Inl e \<Rightarrow> (Inl e,
             s\<lparr>semantic_index := dict_set (uuid4 c) (new_memory c emb) (semantic_index s),
               temporal_index := uuid4 c # temporal_index s,
               importance_index := idx',
               type_index := dict_set (call_type c)
                               (uuid4 c # dict_get_list (type_index s) (call_type c))
                               (ensure_bucket (call_type c) (type_index s))\<rparr>)
        | Inr db \<Rightarrow> (Inr (new_experience c),
             s\<lparr>semantic_index := dict_set (uuid4 c) (new_memory c emb) (semantic_index s),
               temporal_index := uuid4 c # temporal_index s,
               importance_index := idx',
               type_index := dict_set (call_type c)
                               (uuid4 c # dict_get_list (type_index s) (call_type c))
                               (ensure_bucket (call_type c) (type_index s)),
               storage := db\<rparr>))"
    by blast
  have "semantic_index (snd (record_experience J c s))
       = dict_set (uuid4 c) (new_memory c emb) (semantic_index s)"
    "importance_index (snd (record_experience J c s)) = idx'"
    unfolding r by (cases "store_memory J (storage s) (new_memory c emb)"; simp)+
  with c show ?thesis by blast
qed

lemma reachable_invariants:
  "reachable J s \<Longrightarrow>
     set (importance_index s) \<subseteq> dom (map_of (semantic_index s))
   \<and> (\<forall>p\<in>set (semantic_index s). \<forall>q\<in>set (relationships (experience (snd p))). distinct (snd q))"
proof (induction rule: reachable.induct)
  case (created db)
  show ?case by (simp add: empty_system_def)
next
  case (recorded s c)
  then have inv: "set (importance_index s) \<subseteq> dom (map_of (semantic_index s))"
    and rel: "\<forall>p\<in>set (semantic_index s). \<forall>q\<in>set (relationships (experience (snd p))). distinct (snd q)"
    by simp_all
  show ?case
  proof (cases "provider_embedding c")
    case (Inl e)
    then have "snd (record_experience J c s) = s" by (simp add: record_experience_def)
    with inv rel show ?thesis by simp
  next
    case (Inr emb)
    let ?s' = "snd (record_experience J c s)"
    from record_experience_indices[OF Inr inv, of J]
    obtain idx' where
      c: "\<forall>y. count_list idx' y = count_list (importance_index s) y + (if y = uuid4 c then 1 else 0)"
      and f: "semantic_index ?s' = dict_set (uuid4 c) (new_memory c emb) (semantic_index s)"
        "importance_index ?s' = idx'"
      by blast
    have "set idx' \<subseteq> insert (uuid4 c) (set (importance_index s))"
    proof
      fix y assume "y \<in> set idx'"
      then have "0 < count_list idx' y" using count_list_0_iff[of idx' y] by auto
      with c have "y = uuid4 c \<or> 0 < count_list (importance_index s) y"
        by (auto split: if_splits)
      then show "y \<in> insert (uuid4 c) (set (importance_index s))"
        using count_list_pos_mem by fastforce
    qed
    with inv have a: "set (importance_index ?s') \<subseteq> dom (map_of (semantic_index ?s'))"
      unfolding f by (auto simp: map_of_dict_set)
    have "relationships (experience (new_memory c emb)) = []"
      by (simp add: new_memory_def new_experience_def)
    with rel set_dict_set_subset[of "uuid4 c" "new_memory c emb" "semantic_index s"]
    have b: "\<forall>p\<in>set (semantic_index ?s'). \<forall>q\<in>set (relationships (experience (snd p))). distinct (snd q)"
      unfolding f by fastforce
    from a b show ?thesis by blast
  qed
next
  case (connected s a b r)
  then have inv: "set (importance_index s) \<subseteq> dom (map_of (semantic_index s))"
    and rel: "\<forall>p\<in>set (semantic_index s). \<forall>q\<in>set (relationships (experience (snd p))). distinct (snd q)"
    by simp_all
  let ?s' = "snd (connect_memories J a b r s)"
  show ?case
  proof (cases "map_of (semantic_index s) a")
    case None
    then have "?s' = s" by (simp add: connect_memories_def)
    with inv rel show ?thesis by simp
  next
    case (Some A)
    show ?thesis
    proof (cases "map_of (semantic_index s) b")
      case None
      with Some have "?s' = s" by (simp add: connect_memories_def)
      with inv rel show ?thesis by simp
    next
      case (Some B)
      let ?A' = "A\<lparr>experience := (experience A)
                     \<lparr>relationships := add_relationship b r (relationships (experience A))\<rparr>\<rparr>"
      from connect_memories_state[OF \<open>map_of (semantic_index s) a = Some A\<close> Some, of J r]
      have f: "semantic_index ?s' = dict_set a ?A' (semantic_index s)"
        "importance_index ?s' = importance_index s"
        by auto
      have a': "set (importance_index ?s') \<subseteq> dom (map_of (semantic_index ?s'))"
        unfolding f using inv by (auto simp: map_of_dict_set)
      from \<open>map_of (semantic_index s) a = Some A\<close> have "(a, A) \<in> set (semantic_index s)"
        by (rule map_of_SomeD)
      with rel have "\<forall>q\<in>set (relationships (experience A)). distinct (snd q)" by force
      then have "\<forall>q\<in>set (relationships (experience ?A')). distinct (snd q)"
        using add_relationship_distinct by simp
      with rel set_dict_set_subset[of a ?A' "semantic_index s"]
      have b': "\<forall>p\<in>set (semantic_index ?s'). \<forall>q\<in>set (relationships (experience (snd p))). distinct (snd q)"
        unfolding f by fastforce
      from a' b' show ?thesis by blast
    qed
  qed
qed

lemma reachable_relationships_once:
  assumes "reachable J s" and "map_of (semantic_index s) a = Some A"
  shows "count_list (dict_get_list (relationships (experience A)) r) b \<le> 1"
proof -
  from assms(2) have "(a, A) \<in> set (semantic_index s)" by (rule map_of_SomeD)
  with reachable_invariants[OF assms(1)]
  have "\<forall>q\<in>set (relationships (experience A)). distinct (snd q)" by force
  then have "distinct (dict_get_list (relationships (experience A)) r)"
    by (rule dict_get_list_distinct)
  then show ?thesis by (rule count_list_distinct)
qed

subsection \<open>The example values\<close>

lemma system_a_indices:
  "semantic_index system_a = [(''a'', new_memory call_a [1, 0])]"
  "temporal_index system_a = [''a'']"
  "importance_index system_a = [''a'']"
  "type_index system_a = [(''action'', [''a''])]"
  "accepts_writes (storage system_a)"
  by (simp_all add: system_a_def record_all_def record_experience_def call_a_def
      working_db_def empty_system_def new_experience_def new_memory_def
      insert_sorted_by_importance_def ensure_bucket_def dict_get_list_def store_memory_def
      or_default_def Let_def)

lemma system_ab_indices:
  "semantic_index system_ab = [(''a'', new_memory call_a [1, 0]), (''b'', new_memory call_b [0, 1])]"
  "temporal_index system_ab = [''b'', ''a'']"
  "importance_index system_ab = [''b'', ''a'']"
  "type_index system_ab = [(''action'', [''a'']), (''perception'', [''b''])]"
  "accepts_writes (storage system_ab)"
  by (simp_all add: system_ab_def record_all_def record_experience_def call_a_def call_b_def
      working_db_def empty_system_def new_experience_def new_memory_def
      insert_sorted_by_importance_def ensure_bucket_def dict_get_list_def store_memory_def
      or_default_def Let_def)

lemma recorded_examples:
  "recorded [call_a, call_b] = [new_memory call_a [1, 0], new_memory call_b [0, 1]]"
  "recorded [call_a, call_untyped] = [new_memory call_a [1, 0], new_memory call_untyped [0, 1]]"
  by (simp_all add: call_a_def call_b_def call_untyped_def)

lemma example_ids:
  "mem_id (new_memory call_a e) = ''a''" "mem_id (new_memory call_b e) = ''b''"
  "mem_id (new_memory call_untyped e) = ''c''"
  "mem_type (new_memory call_a e) = ''action''" "mem_type (new_memory call_b e) = ''perception''"
  "mem_type (new_memory call_untyped e) = []"
  "mem_importance (new_memory call_a e) = 1" "mem_importance (new_memory call_b e) = 2"
  "mem_timestamp (new_memory call_a e) = ''2024-01-01T10:00:00''"
  "mem_timestamp (new_memory call_b e) = ''2024-01-01T10:00:01''"
  by (simp_all add: new_memory_fields call_a_def call_b_def call_untyped_def)

lemma twin_fields:
  "mem_id (new_memory call_twin e) = ''b''"
  "mem_timestamp (new_memory call_twin e) = ''2024-01-01T10:00:00''"
  "mem_type (new_memory call_twin e) = ''perception''"
  by (simp_all add: new_memory_fields call_twin_def call_b_def)

lemma example_rows:
  "map row_id (rows db_ab) = [''a'', ''b'']"
  "map row_id (rows db_ba) = [''b'', ''a'']"
  "map row_timestamp (rows db_ab) = [''2024-01-01T10:00:00'', ''2024-01-01T10:00:00'']"
  "map row_timestamp (rows db_ba) = [''2024-01-01T10:00:00'', ''2024-01-01T10:00:00'']"
  by (simp_all add: db_ab_def db_ba_def memory_data_def example_ids twin_fields)

lemma recorded_three:
  "recorded [call_a, call_b, call_untyped]
     = [new_memory call_a [1, 0], new_memory call_b [0, 1], new_memory call_untyped [0, 1]]"
  by (simp add: call_a_def call_b_def call_untyped_def)

lemma untyped_importance: "mem_importance (new_memory call_untyped e) = 1"
  by (simp add: new_memory_fields call_untyped_def)

lemma connect_ab_succeeds:
  "fst (connect_memories example_codec ''a'' ''b'' ''caused'' system_ab) = Inr ()"
  by (simp add: connect_memories_def system_ab_indices Let_def store_memory_def)

section \<open>The claims\<close>

subsection \<open>C1: a failing storage write\<close>

text \<open>
  C1 (as amended). \<^verbatim>\<open>record_experience\<close> updates the four indices first and writes
  to storage last, with no handler around the write. When the write raises, the call
  fails with the storage's own exception, the database is unchanged, and the new memory
  stays in all four indices: it is the entry of its id in the semantic map, the head of
  the temporal index and of its type bucket, and one more occurrence in the importance
  index. Nothing is rolled back. (The hypothesis on the importance index says that its
  ids are keys of the semantic map, which every reachable state satisfies:
  \<open>reachable_invariants\<close>.)
\<close>

theorem record_experience_storage_failure:
  assumes "\<not> accepts_writes (storage s)"
    and "provider_embedding c = Inr emb"
    and "set (importance_index s) \<subseteq> dom (map_of (semantic_index s))"
  shows "\<exists>s'. record_experience J c s = (Inl SqliteError, s')
     \<and> storage s' = storage s
     \<and> map_of (semantic_index s') (uuid4 c) = Some (new_memory c emb)
     \<and> temporal_index s' = uuid4 c # temporal_index s
     \<and> count_list (importance_index s') (uuid4 c)
         = Suc (count_list (importance_index s) (uuid4 c))
     \<and> dict_get_list (type_index s') (call_type c)
         = uuid4 c # dict_get_list (type_index s) (call_type c)"
proof -
  from record_experience_step[OF assms(2,3), of J]
  obtain idx' where
    c: "\<forall>y. count_list idx' y = count_list (importance_index s) y + (if y = uuid4 c then 1 else 0)"
    and r: "record_experience J c s =
       (case store_memory J (storage s) (new_memory c emb) of
          Inl e \<Rightarrow> (Inl e,
             s\<lparr>semantic_index := dict_set (uuid4 c) (new_memory c emb) (semantic_index s),
               temporal_index := uuid4 c # temporal_index s,
               importance_index := idx',
               type_index := dict_set (call_type c)
                               (uuid4 c # dict_get_list (type_index s) (call_type c))
                               (ensure_bucket (call_type c) (type_index s))\<rparr>)
        | Inr db \<Rightarrow> (Inr (new_experience c),
             s\<lparr>semantic_index := dict_set (uuid4 c) (new_memory c emb) (semantic_index s),
               temporal_index := uuid4 c # temporal_index s,
               importance_index := idx',
               type_index := dict_set (call_type c)
                               (uuid4 c # dict_get_list (type_index s) (call_type c))
                               (ensure_bucket (call_type c) (type_index s)),
               storage := db\<rparr>))"
    by blast
  have st: "store_memory J (storage s) (new_memory c emb) = Inl SqliteError"
    using assms(1) by (simp add: store_memory_def)
  show ?thesis
    unfolding r st using c
    by (simp add: map_of_dict_set dict_get_list_dict_set)
qed

text \<open>The theorem at a first call on a database that refuses the write.\<close>

theorem record_experience_storage_failure_witness:
  "\<not> accepts_writes (storage (empty_system broken_db))
   \<and> provider_embedding call_a = Inr [1, 0]
   \<and> set (importance_index (empty_system broken_db))
        \<subseteq> dom (map_of (semantic_index (empty_system broken_db)))
   \<and> (\<exists>s'. record_experience example_codec call_a (empty_system broken_db) = (Inl SqliteError, s')
     \<and> storage s' = storage (empty_system broken_db)
     \<and> map_of (semantic_index s') (uuid4 call_a) = Some (new_memory call_a [1, 0])
     \<and> temporal_index s' = uuid4 call_a # temporal_index (empty_system broken_db)
     \<and> count_list (importance_index s') (uuid4 call_a)
         = Suc (count_list (importance_index (empty_system broken_db)) (uuid4 call_a))
     \<and> dict_get_list (type_index s') (call_type call_a)
         = uuid4 call_a # dict_get_list (type_index (empty_system broken_db)) (call_type call_a))"
proof -
  have h1: "\<not> accepts_writes (storage (empty_system broken_db))"
    by (simp add: empty_system_def broken_db_def)
  have h2: "provider_embedding call_a = Inr [1, 0]"
    by (simp add: call_a_def)
  have h3: "set (importance_index (empty_system broken_db))
        \<subseteq> dom (map_of (semantic_index (empty_system broken_db)))"
    by (simp add: empty_system_def)
  from record_experience_storage_failure[OF h1 h2 h3, of example_codec] h1 h2 h3
  show ?thesis by blast
qed

text \<open>
  The claim as stated fails there: the call raises and every index has changed, while
  the database holds no row.
\<close>

theorem record_experience_no_rollback_counterexample:
  "fst (record_experience example_codec call_a (empty_system broken_db)) = Inl SqliteError
   \<and> temporal_index (snd (record_experience example_codec call_a (empty_system broken_db)))
       = [''a'']
   \<and> temporal_index (snd (record_experience example_codec call_a (empty_system broken_db)))
       \<noteq> temporal_index (empty_system broken_db)
   \<and> importance_index (snd (record_experience example_codec call_a (empty_system broken_db)))
       = [''a'']
   \<and> type_index (snd (record_experience example_codec call_a (empty_system broken_db)))
       = [(''action'', [''a''])]
   \<and> map fst (semantic_index (snd (record_experience example_codec call_a (empty_system broken_db))))
       = [''a'']
   \<and> rows (storage (snd (record_experience example_codec call_a (empty_system broken_db)))) = []"
  by (simp add: record_experience_def call_a_def broken_db_def empty_system_def
      new_experience_def new_memory_def insert_sorted_by_importance_def ensure_bucket_def
      dict_get_list_def store_memory_def or_default_def Let_def)

subsection \<open>C2: an id that is already present\<close>

text \<open>
  C2 (as amended). \<^verbatim>\<open>record_experience\<close> never looks whether the id is already a
  key of the semantic map, and no \<^verbatim>\<open>DuplicateIdError\<close> exists in the repository. A
  call whose id is already present succeeds (the storage accepting the write): the
  entry of that id in the semantic map is overwritten by the new memory, the keys of the
  map stay as they were, and the id is added once more to the temporal index, to the
  importance index and to the type bucket.
\<close>

theorem record_experience_duplicate_id:
  assumes "map_of (semantic_index s) (uuid4 c) = Some old"
    and "provider_embedding c = Inr emb"
    and "set (importance_index s) \<subseteq> dom (map_of (semantic_index s))"
    and "accepts_writes (storage s)"
  shows "\<exists>s'. record_experience J c s = (Inr (new_experience c), s')
     \<and> map_of (semantic_index s') (uuid4 c) = Some (new_memory c emb)
     \<and> map fst (semantic_index s') = map fst (semantic_index s)
     \<and> temporal_index s' = uuid4 c # temporal_index s
     \<and> count_list (importance_index s') (uuid4 c)
         = Suc (count_list (importance_index s) (uuid4 c))
     \<and> dict_get_list (type_index s') (call_type c)
         = uuid4 c # dict_get_list (type_index s) (call_type c)"
proof -
  from record_experience_step[OF assms(2,3), of J]
  obtain idx' where
    c: "\<forall>y. count_list idx' y = count_list (importance_index s) y + (if y = uuid4 c then 1 else 0)"
    and r: "record_experience J c s =
       (case store_memory J (storage s) (new_memory c emb) of
          Inl e \<Rightarrow> (Inl e,
             s\<lparr>semantic_index := dict_set (uuid4 c) (new_memory c emb) (semantic_index s),
               temporal_index := uuid4 c # temporal_index s,
               importance_index := idx',
               type_index := dict_set (call_type c)
                               (uuid4 c # dict_get_list (type_index s) (call_type c))
                               (ensure_bucket (call_type c) (type_index s))\<rparr>)
        | Inr db \<Rightarrow> (Inr (new_experience c),
             s\<lparr>semantic_index := dict_set (uuid4 c) (new_memory c emb) (semantic_index s),
               temporal_index := uuid4 c # temporal_index s,
               importance_index := idx',
               type_index := dict_set (call_type c)
                               (uuid4 c # dict_get_list (type_index s) (call_type c))
                               (ensure_bucket (call_type c) (type_index s)),
               storage := db\<rparr>))"
    by blast
  obtain db where st: "store_memory J (storage s) (new_memory c emb) = Inr db"
    using assms(4) by (simp add: store_memory_def)
  show ?thesis
    unfolding r st using c keys_dict_set_present[OF assms(1)]
    by (simp add: map_of_dict_set dict_get_list_dict_set)
qed

text \<open>The theorem at a second call that draws the id of the first.\<close>

theorem record_experience_duplicate_id_witness:
  "map_of (semantic_index system_a) (uuid4 call_a) = Some (new_memory call_a [1, 0])
   \<and> provider_embedding call_a = Inr [1, 0]
   \<and> set (importance_index system_a) \<subseteq> dom (map_of (semantic_index system_a))
   \<and> accepts_writes (storage system_a)
   \<and> (\<exists>s'. record_experience example_codec call_a system_a = (Inr (new_experience call_a), s')
     \<and> map_of (semantic_index s') (uuid4 call_a) = Some (new_memory call_a [1, 0])
     \<and> map fst (semantic_index s') = map fst (semantic_index system_a)
     \<and> temporal_index s' = uuid4 call_a # temporal_index system_a
     \<and> count_list (importance_index s') (uuid4 call_a)
         = Suc (count_list (importance_index system_a) (uuid4 call_a))
     \<and> dict_get_list (type_index s') (call_type call_a)
         = uuid4 call_a # dict_get_list (type_index system_a) (call_type call_a))"
proof -
  have h1: "map_of (semantic_index system_a) (uuid4 call_a) = Some (new_memory call_a [1, 0])"
    by (simp add: system_a_indices) (simp add: call_a_def)
  have h2: "provider_embedding call_a = Inr [1, 0]"
    by (simp add: call_a_def)
  have h3: "set (importance_index system_a) \<subseteq> dom (map_of (semantic_index system_a))"
    by (simp add: system_a_indices)
  have h4: "accepts_writes (storage system_a)"
    by (simp add: system_a_indices)
  from record_experience_duplicate_id[OF h1 h2 h3 h4, of example_codec] h1 h2 h3 h4
  show ?thesis by blast
qed

text \<open>
  The claim as stated fails at a second call that draws the id of the first: it returns
  its experience, and the id stands twice in the temporal index, the importance index
  and the type bucket.
\<close>

theorem duplicate_id_counterexample:
  "fst (record_experience example_codec call_a system_a) = Inr (new_experience call_a)
   \<and> map fst (semantic_index system_a) = [''a'']
   \<and> uuid4 call_a = ''a''
   \<and> temporal_index (snd (record_experience example_codec call_a system_a)) = [''a'', ''a'']
   \<and> importance_index (snd (record_experience example_codec call_a system_a)) = [''a'', ''a'']
   \<and> type_index (snd (record_experience example_codec call_a system_a))
       = [(''action'', [''a'', ''a''])]"
  by (simp add: system_a_indices record_experience_def insert_sorted_by_importance_def
      ensure_bucket_def dict_get_list_def store_memory_def Let_def call_a_def
      new_experience_def new_memory_def)

subsection \<open>C3: vectors of zero magnitude\<close>

text \<open>
  C3 (as amended). \<^verbatim>\<open>calculate_similarity\<close> divides without looking at the
  denominator, and no \<^verbatim>\<open>DegenerateVectorError\<close> exists in the repository. For a vector
  \<open>q\<close> of zero magnitude the similarity with any vector of the same length, on either
  side, is NaN and nothing is raised. \<^verbatim>\<open>recall_similar\<close> with such a query embedding
  then ranks by keys that are all NaN, which leaves the memories in the order of the
  semantic map: it returns the first \<open>limit\<close> of them (the stored embeddings having the
  length of the query, the storage accepting the access updates).
\<close>

theorem zero_vector_similarity_is_nan:
  assumes "norm_vec q = 0"
    and "\<forall>m\<in>set (map snd (semantic_index s)). length (embedding m) = length q"
    and "accepts_writes (storage s)"
  shows "(\<forall>v. length v = length q \<longrightarrow>
            calculate_similarity q v = Inr NaN \<and> calculate_similarity v q = Inr NaN)
       \<and> fst (recall_similar clock (Inr q) limit s)
           = Inr (slice_to limit (map snd (semantic_index s)))"
proof -
  have a: "\<forall>v. length v = length q \<longrightarrow>
            calculate_similarity q v = Inr NaN \<and> calculate_similarity v q = Inr NaN"
    using assms(1) by (simp add: calculate_similarity_zero)
  define ms where "ms = map snd (semantic_index s)"
  have sims: "similarities q ms = Inr (map (\<lambda>m. (NaN, m)) ms)"
    using similarities_zero_query[OF assms(1), of ms] assms(2) by (simp add: ms_def)
  have srt: "list_sort float_lt fst True (map (\<lambda>m. (NaN, m)) ms) = map (\<lambda>m. (NaN, m)) ms"
    by (rule list_sort_all_nan) auto
  have sl: "map snd (slice_to limit (map (\<lambda>m. (NaN, m)) ms)) = slice_to limit ms"
    by (simp add: slice_to_map comp_def)
  obtain db' where su: "surface clock (slice_to limit ms) s = (Inr (slice_to limit ms), s\<lparr>storage := db'\<rparr>)"
    using surface_ok[OF assms(3)] by blast
  have "recall_similar clock (Inr q) limit s
          = surface clock (map snd (slice_to limit (list_sort float_lt fst True (map (\<lambda>m. (NaN, m)) ms)))) s"
    unfolding recall_similar_def ms_def[symmetric] by (simp add: sims)
  then have "fst (recall_similar clock (Inr q) limit s) = Inr (slice_to limit ms)"
    unfolding srt sl su by simp
  with a show ?thesis unfolding ms_def by blast
qed

text \<open>The theorem at the zero query of dimension two, on the system of two memories.\<close>

theorem zero_vector_similarity_is_nan_witness:
  "norm_vec [0, 0] = 0
   \<and> map (\<lambda>m. length (embedding m)) (map snd (semantic_index system_ab)) = [2, 2]
   \<and> accepts_writes (storage system_ab)
   \<and> calculate_similarity [0, 0] [0, 1] = Inr NaN
   \<and> calculate_similarity [0, 1] [0, 0] = Inr NaN
   \<and> fst (recall_similar example_clock (Inr [0, 0]) 1 system_ab)
       = Inr (slice_to 1 (map snd (semantic_index system_ab)))"
proof -
  have h1: "norm_vec [0, 0] = 0"
    by (simp add: norm_vec_def dot_def)
  have h2': "map (\<lambda>m. length (embedding m)) (map snd (semantic_index system_ab)) = [2, 2]"
    by (simp add: system_ab_indices new_memory_def)
  have h2: "\<forall>m\<in>set (map snd (semantic_index system_ab)). length (embedding m) = length [0, 0 :: real]"
    by (simp add: system_ab_indices new_memory_def)
  have h3: "accepts_writes (storage system_ab)"
    by (simp add: system_ab_indices)
  from zero_vector_similarity_is_nan[OF h1 h2 h3, of example_clock 1]
  have "calculate_similarity [0, 0] [0, 1] = Inr NaN \<and> calculate_similarity [0, 1] [0, 0] = Inr NaN"
    and "fst (recall_similar example_clock (Inr [0, 0]) 1 system_ab)
       = Inr (slice_to 1 (map snd (semantic_index system_ab)))"
    by simp_all
  with h1 h2' h3 show ?thesis by blast
qed

text \<open>
  The claim as stated fails there: the similarity is NaN, nothing is raised, and the
  recall returns both stored memories.
\<close>

theorem zero_query_counterexample:
  "norm_vec [0, 0] = 0
   \<and> calculate_similarity [0, 0] [1, 0] = Inr NaN
   \<and> semantic_index system_ab \<noteq> []
   \<and> fst (recall_similar example_clock (Inr [0, 0]) 5 system_ab)
       = Inr [new_memory call_a [1, 0], new_memory call_b [0, 1]]"
proof -
  have n: "norm_vec [0, 0] = 0"
    by (simp add: norm_vec_def dot_def)
  have c: "calculate_similarity [0, 0] [1, 0] = Inr NaN"
    by (simp add: calculate_similarity_def n)
  have s: "similarities [0, 0] (map snd (semantic_index system_ab))
             = Inr [(NaN, new_memory call_a [1, 0]), (NaN, new_memory call_b [0, 1])]"
    by (simp add: system_ab_indices calculate_similarity_def n new_memory_def)
  have srt: "list_sort float_lt fst True
               [(NaN, new_memory call_a [1, 0]), (NaN, new_memory call_b [0, 1])]
             = [(NaN, new_memory call_a [1, 0]), (NaN, new_memory call_b [0, 1])]"
    by (simp add: list_sort_def)
  have "fst (recall_similar example_clock (Inr [0, 0]) 5 system_ab)
       = Inr [new_memory call_a [1, 0], new_memory call_b [0, 1]]"
    by (simp add: recall_similar_def system_ab_indices(5) s srt slice_to_def surface_def
        update_access_def)
  with n c show ?thesis by (simp add: system_ab_indices)
qed

subsection \<open>C4: the fallback embedding\<close>

text \<open>
  C4. The source means the fallback to be deterministic (its comment reads ``Use a
  hash-based approach for deterministic vectors'') and seeds the generator with
  \<^verbatim>\<open>hash(text)\<close>. Python salts the hash of a string per process, so two processes
  are two functions \<open>hash1\<close> and \<open>hash2\<close>; and \<^verbatim>\<open>RandomState\<close> refuses a seed outside
  \<open>0 .. 2^32 - 1\<close>, where most 64-bit hashes lie and every negative one. The code
  evaluated for one text in two processes, the hash out of range in the first and in
  range in the second: the first raises \<^verbatim>\<open>ValueError\<close> and yields no vector, the
  second returns the vector of its seed, and the two outcomes differ. The claim of an
  identical vector across process instances does not hold of this code.
\<close>

theorem fallback_embedding_differs_between_processes:
  assumes "hash1 text < 0 \<or> 2 ^ 32 \<le> hash1 text"
    and "0 \<le> hash2 text" and "hash2 text < 2 ^ 32"
  shows "generate_simple_embedding hash1 randn text = Inl ValueError
       \<and> generate_simple_embedding hash2 randn text = Inr (randn (hash2 text) 256)
       \<and> generate_simple_embedding hash1 randn text \<noteq> generate_simple_embedding hash2 randn text"
  using assms by (auto simp: generate_simple_embedding_def Let_def)

text \<open>The theorem at the hashes \<open>-1\<close> and \<open>5\<close> of the text \<^verbatim>\<open>hello\<close>.\<close>

theorem fallback_embedding_differs_between_processes_witness:
  "(- 1 :: int) < 0
   \<and> (0 :: int) \<le> 5 \<and> (5 :: int) < 2 ^ 32
   \<and> generate_simple_embedding (\<lambda>_. - 1) (\<lambda>seed n. replicate n 0) ''hello'' = Inl ValueError
   \<and> generate_simple_embedding (\<lambda>_. 5) (\<lambda>seed n. replicate n 0) ''hello''
       = Inr (replicate 256 0)
   \<and> generate_simple_embedding (\<lambda>_. - 1) (\<lambda>seed n. replicate n 0) ''hello''
       \<noteq> generate_simple_embedding (\<lambda>_. 5) (\<lambda>seed n. replicate n 0) ''hello''"
proof -
  have h1: "(\<lambda>_. - 1 :: int) ''hello'' < 0 \<or> 2 ^ 32 \<le> (\<lambda>_. - 1 :: int) ''hello''" by simp
  have h2: "0 \<le> (\<lambda>_. 5 :: int) ''hello''" by simp
  have h3: "(\<lambda>_. 5 :: int) ''hello'' < 2 ^ 32" by simp
  note t = fallback_embedding_differs_between_processes[OF h1 h2 h3,
      of "\<lambda>seed n. replicate n 0"]
  have a: "(- 1 :: int) < 0" "(0 :: int) \<le> 5" "(5 :: int) < 2 ^ 32" by simp_all
  from t have t1: "generate_simple_embedding (\<lambda>_. - 1) (\<lambda>seed n. replicate n 0) ''hello'' = Inl ValueError"
    and t2: "generate_simple_embedding (\<lambda>_. 5) (\<lambda>seed n. replicate n 0) ''hello''
       = Inr (replicate 256 0)"
    and t3: "generate_simple_embedding (\<lambda>_. - 1) (\<lambda>seed n. replicate n 0) ''hello''
       \<noteq> generate_simple_embedding (\<lambda>_. 5) (\<lambda>seed n. replicate n 0) ''hello''"
    by simp_all
  show ?thesis by (intro conjI a t1 t2 t3)
qed

subsection \<open>C5: the most recent memories\<close>

text \<open>
  C5 (as amended). After any sequence of \<^verbatim>\<open>record_experience\<close> calls on an empty
  memory system (the ids drawn being distinct, the storage accepting writes),
  \<^verbatim>\<open>recall_recent\<close> with limit \<open>k\<close> returns, without error, the \<open>k\<close> memories recorded
  last, the last one first, and all of them when there are fewer than \<open>k\<close>; with a type
  filter that is a non-empty string it returns the \<open>k\<close> recorded last among the memories
  of that type, and none for a type that was never recorded. When the clock readings do
  not decrease from call to call, both results are in descending order of timestamp,
  equal timestamps with the later insertion first. The amendment: the filter has to be
  a non-empty string, because \<^verbatim>\<open>if type:\<close> treats \<^verbatim>\<open>""\<close> as no filter.
\<close>

theorem recall_recent_most_recent:
  assumes "distinct (map mem_id (recorded calls))"
    and "accepts_writes db"
  shows "fst (recall_recent clock (int k) None (record_all J calls (empty_system db)))
           = Inr (take k (rev (recorded calls)))
       \<and> (t \<noteq> [] \<longrightarrow>
            fst (recall_recent clock (int k) (Some t) (record_all J calls (empty_system db)))
              = Inr (take k (rev (filter (\<lambda>m. mem_type m = t) (recorded calls)))))
       \<and> (sorted (map mem_timestamp (recorded calls)) \<longrightarrow>
            sorted_wrt (\<lambda>a b. mem_timestamp b \<le> mem_timestamp a) (take k (rev (recorded calls)))
          \<and> sorted_wrt (\<lambda>a b. mem_timestamp b \<le> mem_timestamp a)
               (take k (rev (filter (\<lambda>m. mem_type m = t) (recorded calls)))))
       \<and> (t \<noteq> [] \<and> t \<notin> set (map mem_type (recorded calls)) \<longrightarrow>
            fst (recall_recent clock (int k) (Some t) (record_all J calls (empty_system db)))
              = Inr [])"
proof -
  note h = recorded_system[OF assms(1), of J db]
  have w: "accepts_writes (storage (record_all J calls (empty_system db)))"
    using h(2) assms(2) by simp
  note r = recall_recent_holds[OF h(1) w, where clock=clock and limit="int k"]
  have s: "sorted (map mem_timestamp (recorded calls)) \<Longrightarrow>
            sorted_wrt (\<lambda>a b. mem_timestamp b \<le> mem_timestamp a) (take k (rev (recorded calls)))"
    using sorted_wrt_rev_timestamps[of "recorded calls" k "\<lambda>_. True"] by simp
  have u: "t \<notin> set (map mem_type (recorded calls)) \<Longrightarrow>
            filter (\<lambda>m. mem_type m = t) (recorded calls) = []"
    by (auto simp: filter_empty_conv)
  show ?thesis
    using r(1) r(3)[of t] s sorted_wrt_rev_timestamps[of "recorded calls" k "\<lambda>m. mem_type m = t"] u
    by (simp add: slice_to_nat)
qed

text \<open>
  The theorem after two calls, with limit one: without a filter, for a recorded type and
  for a type that was never recorded.
\<close>

theorem recall_recent_most_recent_witness:
  "distinct (map mem_id (recorded [call_a, call_b]))
   \<and> accepts_writes working_db
   \<and> fst (recall_recent example_clock 1 None
            (record_all example_codec [call_a, call_b] (empty_system working_db)))
       = Inr [new_memory call_b [0, 1]]
   \<and> fst (recall_recent example_clock 1 (Some ''action'')
            (record_all example_codec [call_a, call_b] (empty_system working_db)))
       = Inr [new_memory call_a [1, 0]]
   \<and> sorted (map mem_timestamp (recorded [call_a, call_b]))
   \<and> sorted_wrt (\<lambda>a b. mem_timestamp b \<le> mem_timestamp a) (take 1 (rev (recorded [call_a, call_b])))
   \<and> ''thought'' \<notin> set (map mem_type (recorded [call_a, call_b]))
   \<and> fst (recall_recent example_clock 1 (Some ''thought'')
            (record_all example_codec [call_a, call_b] (empty_system working_db)))
       = Inr []"
proof -
  have h1: "distinct (map mem_id (recorded [call_a, call_b]))"
    unfolding recorded_examples by (simp add: example_ids)
  have h2: "accepts_writes working_db"
    by (simp add: working_db_def)
  have h3: "''action'' \<noteq> []" by simp
  have h4: "sorted (map mem_timestamp (recorded [call_a, call_b]))"
    unfolding recorded_examples by (simp add: example_ids)
  note t = recall_recent_most_recent[OF h1 h2, of example_clock 1 example_codec "''action''"]
  have t1: "fst (recall_recent example_clock 1 None
            (record_all example_codec [call_a, call_b] (empty_system working_db)))
       = Inr [new_memory call_b [0, 1]]"
    using t[THEN conjunct1] unfolding recorded_examples by simp
  have t2: "fst (recall_recent example_clock 1 (Some ''action'')
            (record_all example_codec [call_a, call_b] (empty_system working_db)))
       = Inr [new_memory call_a [1, 0]]"
    using t[THEN conjunct2, THEN conjunct1, rule_format, OF h3]
    unfolding recorded_examples by (simp add: example_ids)
  have t3: "sorted_wrt (\<lambda>a b. mem_timestamp b \<le> mem_timestamp a)
              (take 1 (rev (recorded [call_a, call_b])))"
    using t[THEN conjunct2, THEN conjunct2, THEN conjunct1, rule_format, OF h4, THEN conjunct1]
    by simp
  have h5: "''thought'' \<noteq> []" by simp
  have h6: "''thought'' \<notin> set (map mem_type (recorded [call_a, call_b]))"
    unfolding recorded_examples by (simp add: example_ids)
  note t' = recall_recent_most_recent[OF h1 h2, of example_clock 1 example_codec "''thought''"]
  have t4: "fst (recall_recent example_clock 1 (Some ''thought'')
            (record_all example_codec [call_a, call_b] (empty_system working_db)))
       = Inr []"
    using t'[THEN conjunct2, THEN conjunct2, THEN conjunct2, rule_format, OF conjI[OF h5 h6]]
    by simp
  show ?thesis by (intro conjI h1 h2 t1 t2 h4 t3 h6 t4)
qed

text \<open>
  The claim as stated fails for the empty string as type filter: after an
  \<^verbatim>\<open>"action"\<close> and a memory whose type is \<^verbatim>\<open>""\<close>, \<^verbatim>\<open>recall_recent(5, "")\<close>
  returns both, the \<^verbatim>\<open>"action"\<close> memory included.
\<close>

theorem empty_type_filter_counterexample:
  "fst (recall_recent example_clock 5 (Some [])
          (record_all example_codec [call_a, call_untyped] (empty_system working_db)))
     = Inr [new_memory call_untyped [0, 1], new_memory call_a [1, 0]]
   \<and> mem_type (new_memory call_a [1, 0]) \<noteq> []
   \<and> mem_type (new_memory call_untyped [0, 1]) = []"
proof -
  have d: "distinct (map mem_id (recorded [call_a, call_untyped]))"
    unfolding recorded_examples by (simp add: example_ids)
  note h = recorded_system[OF d, of example_codec working_db]
  have w: "accepts_writes (storage (record_all example_codec [call_a, call_untyped]
                                      (empty_system working_db)))"
    using h(2) by (simp add: working_db_def)
  from recall_recent_holds(2)[OF h(1) w, of example_clock 5]
  show ?thesis unfolding recorded_examples by (simp add: example_ids slice_to_def)
qed

subsection \<open>C6: the most important memories\<close>

text \<open>
  C6. After any sequence of \<^verbatim>\<open>record_experience\<close> calls on an empty memory system
  (the ids drawn being distinct, the storage accepting writes), \<^verbatim>\<open>recall_important\<close>
  with any limit returns, without error, memories in non-increasing order of importance,
  and those of equal importance in the order in which they were recorded. More
  precisely the result is the leading slice of the one list that holds all recorded
  memories in descending order of importance with ties in recording order. And the
  insertion into the importance index puts a new id \<open>x\<close> of importance \<open>v\<close> after the
  leading ids whose importance is at least \<open>v\<close>, that is before the first existing id
  whose importance is strictly less than \<open>v\<close>.
\<close>

theorem recall_important_sorted_stable:
  assumes "distinct (map mem_id (recorded calls))"
    and "accepts_writes db"
  shows "(\<exists>ms L. fst (recall_important clock k (record_all J calls (empty_system db))) = Inr ms
          \<and> sorted_wrt (\<lambda>a b. mem_importance b \<le> mem_importance a) ms
          \<and> (\<forall>v. prefix (filter (\<lambda>m. mem_importance m = v) ms)
                         (filter (\<lambda>m. mem_importance m = v) (recorded calls)))
          \<and> ms = slice_to k L
          \<and> set L = set (recorded calls)
          \<and> stable_descending mem_importance (recorded calls) L)
       \<and> insert_before_smaller (semantic_index (record_all J calls (empty_system db))) v x
             (importance_index (record_all J calls (empty_system db)))
           = Inr (takeWhile (\<lambda>i. \<exists>m. map_of (semantic_index (record_all J calls (empty_system db))) i
                                      = Some m \<and> v \<le> mem_importance m)
                    (importance_index (record_all J calls (empty_system db)))
                  @ x # dropWhile (\<lambda>i. \<exists>m. map_of (semantic_index
                                         (record_all J calls (empty_system db))) i
                                      = Some m \<and> v \<le> mem_importance m)
                    (importance_index (record_all J calls (empty_system db))))"
proof -
  note h = recorded_system[OF assms(1), of J db]
  have keys: "set (importance_index (record_all J calls (empty_system db)))
                \<subseteq> dom (map_of (semantic_index (record_all J calls (empty_system db))))"
    using h(1) by (auto simp: holds_recorded_def dom_map_of_indexed)
  note pos = insert_before_smaller_position[OF keys, of v x]
  have w: "accepts_writes (storage (record_all J calls (empty_system db)))"
    using h(2) assms(2) by simp
  from recall_important_holds[OF h(1) w, where clock=clock and limit=k]
  obtain L where L: "stable_descending mem_importance (recorded calls) L"
    "set L = set (recorded calls)"
    "fst (recall_important clock k (record_all J calls (empty_system db))) = Inr (slice_to k L)"
    by blast
  have a: "sorted_wrt (\<lambda>a b. mem_importance b \<le> mem_importance a) (slice_to k L)"
    using L(1) by (simp add: stable_descending_def sorted_wrt_slice_to)
  have b: "\<forall>v. prefix (filter (\<lambda>m. mem_importance m = v) (slice_to k L))
                      (filter (\<lambda>m. mem_importance m = v) (recorded calls))"
  proof
    fix v
    have "filter (\<lambda>m. mem_importance m = v) L
            = filter (\<lambda>m. mem_importance m = v) (recorded calls)"
      using L(1) by (simp add: stable_descending_def)
    with prefix_filter_slice_to[of "\<lambda>m. mem_importance m = v" k L]
    show "prefix (filter (\<lambda>m. mem_importance m = v) (slice_to k L))
                      (filter (\<lambda>m. mem_importance m = v) (recorded calls))"
      by simp
  qed
  from L a b have "\<exists>ms L. fst (recall_important clock k (record_all J calls (empty_system db))) = Inr ms
          \<and> sorted_wrt (\<lambda>a b. mem_importance b \<le> mem_importance a) ms
          \<and> (\<forall>v. prefix (filter (\<lambda>m. mem_importance m = v) ms)
                         (filter (\<lambda>m. mem_importance m = v) (recorded calls)))
          \<and> ms = slice_to k L
          \<and> set L = set (recorded calls)
          \<and> stable_descending mem_importance (recorded calls) L"
    by blast
  with pos show ?thesis by (rule conjI[rotated])
qed

text \<open>
  The theorem after three calls of importance 1, 2 and 1, with limit three: the memory
  of importance 2 comes first, the two of importance 1 follow in recording order.
\<close>

theorem recall_important_sorted_stable_witness:
  "distinct (map mem_id (recorded [call_a, call_b, call_untyped]))
   \<and> accepts_writes working_db
   \<and> map mem_importance (recorded [call_a, call_b, call_untyped]) = [1, 2, 1]
   \<and> fst (recall_important example_clock 3
            (record_all example_codec [call_a, call_b, call_untyped] (empty_system working_db)))
       = Inr [new_memory call_b [0, 1], new_memory call_a [1, 0], new_memory call_untyped [0, 1]]"
proof -
  let ?a = "new_memory call_a [1, 0]" and ?b = "new_memory call_b [0, 1]"
    and ?c = "new_memory call_untyped [0, 1]"
  have h1: "distinct (map mem_id (recorded [call_a, call_b, call_untyped]))"
    unfolding recorded_three by (simp add: example_ids)
  have h2: "accepts_writes working_db"
    by (simp add: working_db_def)
  have i: "map mem_importance (recorded [call_a, call_b, call_untyped]) = [1, 2, 1]"
    unfolding recorded_three by (simp add: example_ids untyped_importance)
  from recall_important_sorted_stable[OF h1 h2, of example_clock 3 example_codec, THEN conjunct1]
  obtain ms L where r: "fst (recall_important example_clock 3
            (record_all example_codec [call_a, call_b, call_untyped] (empty_system working_db)))
       = Inr ms"
    and ms: "ms = slice_to 3 L"
    and sd: "stable_descending mem_importance (recorded [call_a, call_b, call_untyped]) L"
    by blast
  have sd0: "stable_descending mem_importance (recorded [call_a, call_b, call_untyped]) [?b, ?a, ?c]"
    unfolding recorded_three
    by (simp add: stable_descending_def example_ids untyped_importance)
  have "L = [?b, ?a, ?c]"
    by (rule stable_descending_unique[OF sd sd0])
  with ms have "ms = [?b, ?a, ?c]" by (simp add: slice_to_def)
  with r h1 h2 i show ?thesis by simp
qed

subsection \<open>C7: the order after a reload\<close>

text \<open>
  C7 (as amended). \<^verbatim>\<open>load_memories\<close> sorts by timestamp alone, with Python's
  stable sort and \<^verbatim>\<open>reverse=True\<close>; no tie-break on the id exists in the code. After
  a reload over stored memories (of distinct ids, as the primary key makes them) the
  temporal index and every type bucket are in descending order of timestamp, and
  memories of equal timestamp stand in the order in which the storage supplied them.
  By \<open>stable_descending_unique\<close> the rebuilt order is thereby the same for any two
  supply orders that agree on the relative order of the records of equal timestamp.
\<close>

theorem load_memories_order:
  assumes "distinct (map row_id (rows (storage s)))"
  shows "\<exists>s' T. load_memories J s = (Inr (), s')
     \<and> temporal_index s' = map mem_id T
     \<and> stable_descending mem_timestamp (load_all_memories J (storage s)) T
     \<and> (\<forall>t ids. map_of (type_index s') t = Some ids \<longrightarrow>
           (\<exists>B. ids = map mem_id B
              \<and> stable_descending mem_timestamp
                   (filter (\<lambda>m. mem_type m = t) (load_all_memories J (storage s))) B))"
proof -
  have d: "distinct (map mem_id (load_all_memories J (storage s)))"
    using assms by (simp add: ids_load_all_memories)
  from load_memories_result[OF d]
  obtain s' where l: "load_memories J s = (Inr (), s')"
    and t: "temporal_index s'
         = map mem_id (list_sort (<) mem_timestamp True (load_all_memories J (storage s)))"
    and b: "\<forall>t ids. map_of (type_index s') t = Some ids \<longrightarrow>
           ids = map mem_id (list_sort (<) mem_timestamp True
                   (filter (\<lambda>m. mem_type m = t) (load_all_memories J (storage s))))"
    by blast
  have b': "\<forall>t ids. map_of (type_index s') t = Some ids \<longrightarrow>
           (\<exists>B. ids = map mem_id B
              \<and> stable_descending mem_timestamp
                   (filter (\<lambda>m. mem_type m = t) (load_all_memories J (storage s))) B)"
    using b stable_descending_list_sort by blast
  from l t b' stable_descending_list_sort[of mem_timestamp "load_all_memories J (storage s)"]
  show ?thesis by blast
qed

text \<open>The theorem on the database that holds two rows of one timestamp.\<close>

theorem load_memories_order_witness:
  "distinct (map row_id (rows (storage (empty_system db_ab))))
   \<and> (\<exists>s' T. load_memories example_codec (empty_system db_ab) = (Inr (), s')
     \<and> temporal_index s' = map mem_id T
     \<and> stable_descending mem_timestamp
          (load_all_memories example_codec (storage (empty_system db_ab))) T
     \<and> (\<forall>t ids. map_of (type_index s') t = Some ids \<longrightarrow>
           (\<exists>B. ids = map mem_id B
              \<and> stable_descending mem_timestamp
                   (filter (\<lambda>m. mem_type m = t)
                      (load_all_memories example_codec (storage (empty_system db_ab)))) B)))"
proof -
  have h: "distinct (map row_id (rows (storage (empty_system db_ab))))"
    by (simp add: empty_system_def example_rows)
  note t = load_memories_order[OF h, of example_codec]
  show ?thesis by (intro conjI h t)
qed

text \<open>
  The claim as stated fails there: the same two rows, of equal timestamp, supplied in
  the two possible orders give two different temporal indices, so no tie-break on the
  id decides the order.
\<close>

theorem load_order_follows_storage_counterexample:
  "temporal_index (snd (load_memories example_codec (empty_system db_ab))) = [''a'', ''b'']
   \<and> temporal_index (snd (load_memories example_codec (empty_system db_ba))) = [''b'', ''a'']
   \<and> set (rows db_ab) = set (rows db_ba)
   \<and> map row_timestamp (rows db_ab) = [''2024-01-01T10:00:00'', ''2024-01-01T10:00:00'']"
proof -
  have a: "temporal_index (snd (load_memories example_codec (empty_system db_ab))) = [''a'', ''b'']"
    by (subst temporal_after_load) (simp_all add: example_rows list_sort_def)
  have b: "temporal_index (snd (load_memories example_codec (empty_system db_ba))) = [''b'', ''a'']"
    by (subst temporal_after_load) (simp_all add: example_rows list_sort_def)
  have c: "set (rows db_ab) = set (rows db_ba)"
    by (auto simp: db_ab_def db_ba_def)
  show ?thesis by (intro conjI a b c example_rows(3))
qed

subsection \<open>C8: storing and reloading a memory\<close>




subsection \<open>C9: connecting twice\<close>

text \<open>
  C9. For two stored memories \<open>a\<close> and \<open>b\<close> and a relationship \<open>r\<close> under which \<open>b\<close>
  stands at most once in the relationships of \<open>a\<close> (as in every state built by
  recording and connecting: \<open>reachable_relationships_once\<close>), two identical \<^verbatim>\<open>connect_memories\<close> calls leave \<open>b\<close>
  exactly once under \<open>r\<close>; the second call changes nothing in the semantic map. This
  holds whether or not the storage accepts the writes, since the relationships are
  mutated before the write.
\<close>

theorem connect_memories_idempotent:
  assumes "map_of (semantic_index s) a = Some A"
    and "map_of (semantic_index s) b = Some B"
    and "count_list (dict_get_list (relationships (experience A)) r) b \<le> 1"
  shows "\<exists>A'. map_of (semantic_index
                  (snd (connect_memories J a b r (snd (connect_memories J a b r s))))) a = Some A'
     \<and> count_list (dict_get_list (relationships (experience A')) r) b = 1
     \<and> semantic_index (snd (connect_memories J a b r (snd (connect_memories J a b r s))))
         = semantic_index (snd (connect_memories J a b r s))"
proof -
  define A1 where "A1 = A\<lparr>experience := (experience A)
      \<lparr>relationships := add_relationship b r (relationships (experience A))\<rparr>\<rparr>"
  define s1 where "s1 = snd (connect_memories J a b r s)"
  from connect_memories_state[OF assms(1,2), of J r]
  have sem1: "semantic_index s1 = dict_set a A1 (semantic_index s)"
    by (auto simp: s1_def A1_def)
  have a1: "map_of (semantic_index s1) a = Some A1"
    by (simp add: sem1 map_of_dict_set)
  obtain B1 where b1: "map_of (semantic_index s1) b = Some B1"
    using assms(2) by (cases "b = a") (simp_all add: sem1 map_of_dict_set)
  have same: "A1\<lparr>experience := (experience A1)
      \<lparr>relationships := add_relationship b r (relationships (experience A1))\<rparr>\<rparr> = A1"
    by (simp add: A1_def add_relationship_idem)
  from connect_memories_state[OF a1 b1, of J r]
  have sem2: "semantic_index (snd (connect_memories J a b r s1)) = semantic_index s1"
    by (auto simp: same dict_set_same[OF a1])
  have cnt: "count_list (dict_get_list (relationships (experience A1)) r) b = 1"
    using count_list_le_1[OF assms(3)]
    by (simp add: A1_def dict_get_list_add_relationship)
  from sem2 a1 cnt show ?thesis
    unfolding s1_def by simp
qed

text \<open>The theorem on the system of two memories, connecting \<open>a\<close> to \<open>b\<close>.\<close>

theorem connect_memories_idempotent_witness:
  "map_of (semantic_index system_ab) ''a'' = Some (new_memory call_a [1, 0])
   \<and> map_of (semantic_index system_ab) ''b'' = Some (new_memory call_b [0, 1])
   \<and> count_list (dict_get_list (relationships (experience (new_memory call_a [1, 0]))) ''caused'')
         ''b'' \<le> 1
   \<and> (\<exists>A'. map_of (semantic_index
                  (snd (connect_memories example_codec ''a'' ''b'' ''caused''
                     (snd (connect_memories example_codec ''a'' ''b'' ''caused'' system_ab)))))
                ''a'' = Some A'
     \<and> count_list (dict_get_list (relationships (experience A')) ''caused'') ''b'' = 1
     \<and> semantic_index (snd (connect_memories example_codec ''a'' ''b'' ''caused''
                     (snd (connect_memories example_codec ''a'' ''b'' ''caused'' system_ab))))
         = semantic_index (snd (connect_memories example_codec ''a'' ''b'' ''caused'' system_ab)))"
proof -
  have h1: "map_of (semantic_index system_ab) ''a'' = Some (new_memory call_a [1, 0])"
    by (simp add: system_ab_indices)
  have h2: "map_of (semantic_index system_ab) ''b'' = Some (new_memory call_b [0, 1])"
    by (simp add: system_ab_indices)
  have h3: "count_list (dict_get_list (relationships (experience (new_memory call_a [1, 0])))
               ''caused'') ''b'' \<le> 1"
    by (simp add: new_memory_def new_experience_def dict_get_list_def)
  note c = connect_memories_idempotent[OF h1 h2 h3, of example_codec]
  show ?thesis by (intro conjI h1 h2 h3 c)
qed

subsection \<open>C10: what connecting leaves alone\<close>

text \<open>
  C10. A \<^verbatim>\<open>connect_memories\<close> call that succeeds leaves the temporal index, the
  importance index and the type buckets as they were, keeps the keys of the semantic
  map (the stored ids) in their order, leaves the memory of every id other than the
  source as it was (the target included), and changes the source memory in its
  relationships only.
\<close>

theorem connect_memories_frame:
  assumes "connect_memories J a b r s = (Inr (), s')"
  shows "temporal_index s' = temporal_index s
     \<and> importance_index s' = importance_index s
     \<and> type_index s' = type_index s
     \<and> map fst (semantic_index s') = map fst (semantic_index s)
     \<and> (\<forall>i. i \<noteq> a \<longrightarrow> map_of (semantic_index s') i = map_of (semantic_index s) i)
     \<and> (\<exists>A. map_of (semantic_index s) a = Some A
            \<and> map_of (semantic_index s') a
                = Some (A\<lparr>experience := (experience A)
                     \<lparr>relationships := add_relationship b r (relationships (experience A))\<rparr>\<rparr>))"
proof -
  from assms obtain A where A: "map_of (semantic_index s) a = Some A"
    by (cases "map_of (semantic_index s) a") (auto simp: connect_memories_def)
  from assms A obtain B where B: "map_of (semantic_index s) b = Some B"
    by (cases "map_of (semantic_index s) b") (auto simp: connect_memories_def)
  from connect_memories_state[OF A B, of J r] assms
  obtain db where s': "s' = s\<lparr>semantic_index :=
                 dict_set a (A\<lparr>experience := (experience A)
                     \<lparr>relationships := add_relationship b r (relationships (experience A))\<rparr>\<rparr>)
                   (semantic_index s),
               storage := db\<rparr>"
    by auto
  show ?thesis
    using A by (simp add: s' map_of_dict_set keys_dict_set_present[OF A])
qed

text \<open>The theorem at the same call.\<close>

theorem connect_memories_frame_witness:
  "connect_memories example_codec ''a'' ''b'' ''caused'' system_ab
     = (Inr (), snd (connect_memories example_codec ''a'' ''b'' ''caused'' system_ab))
   \<and> temporal_index (snd (connect_memories example_codec ''a'' ''b'' ''caused'' system_ab))
       = temporal_index system_ab
   \<and> importance_index (snd (connect_memories example_codec ''a'' ''b'' ''caused'' system_ab))
       = importance_index system_ab
   \<and> type_index (snd (connect_memories example_codec ''a'' ''b'' ''caused'' system_ab))
       = type_index system_ab
   \<and> map fst (semantic_index (snd (connect_memories example_codec ''a'' ''b'' ''caused'' system_ab)))
       = map fst (semantic_index system_ab)
   \<and> map_of (semantic_index (snd (connect_memories example_codec ''a'' ''b'' ''caused'' system_ab))) ''b''
       = map_of (semantic_index system_ab) ''b''
   \<and> (\<exists>A. map_of (semantic_index system_ab) ''a'' = Some A
         \<and> map_of (semantic_index (snd (connect_memories example_codec ''a'' ''b'' ''caused'' system_ab))) ''a''
             = Some (A\<lparr>experience := (experience A)
                  \<lparr>relationships := add_relationship ''b'' ''caused'' (relationships (experience A))\<rparr>\<rparr>))"
proof -
  have h: "connect_memories example_codec ''a'' ''b'' ''caused'' system_ab
     = (Inr (), snd (connect_memories example_codec ''a'' ''b'' ''caused'' system_ab))"
    by (simp add: prod_eq_iff connect_ab_succeeds)
  have ne: "''b'' \<noteq> ''a''" by simp
  note f = connect_memories_frame[OF h]
  note f1 = f[THEN conjunct1]
  note f2 = f[THEN conjunct2, THEN conjunct1]
  note f3 = f[THEN conjunct2, THEN conjunct2, THEN conjunct1]
  note f4 = f[THEN conjunct2, THEN conjunct2, THEN conjunct2, THEN conjunct1]
  note f5 = f[THEN conjunct2, THEN conjunct2, THEN conjunct2, THEN conjunct2, THEN conjunct1,
      rule_format, OF ne]
  note f6 = f[THEN conjunct2, THEN conjunct2, THEN conjunct2, THEN conjunct2, THEN conjunct2]
  show ?thesis by (intro conjI h f1 f2 f3 f4 f5 f6)
qed

end
